theory Spec2Isabelle
  imports Complex_Main
begin

section \<open>The cart state manager of \<^verbatim>\<open>frontend/src/context/CartContext.tsx\<close>\<close>

text \<open>
  The cart is the React state \<^verbatim>\<open>items: CartItem[]\<close> of \<^verbatim>\<open>CartProvider\<close>. Every
  mutation is a pure updater \<^verbatim>\<open>prevItems => newItems\<close> handed to \<^verbatim>\<open>setItems\<close>; the
  derived values are recomputed from \<^verbatim>\<open>items\<close> on every render. The updaters and
  the derived values are embedded as functions on the list of line items.

  A numeric field of a line item holds the decimal value that is written for it in a
  test, in a product record or in the persisted text, as an exact rational. The
  mutations compare ids and add quantities exactly, as the program does for integers up
  to \<open>2 ^ 53\<close>. The derived values are computed as the program computes them, in IEEE
  754 doubles: each field is read as the double nearest to its decimal value and each
  operation rounds its result. An optional field (\<^verbatim>\<open>imageUrl?\<close>, \<^verbatim>\<open>discount?\<close>) is an
  \<open>option\<close>, \<open>None\<close> standing for \<^verbatim>\<open>undefined\<close>.
\<close>

type_synonym number = rat

subsection \<open>Data model\<close>

text \<open>\<^verbatim>\<open>interface CartItem\<close> (lines 4 to 11).\<close>

record CartItem =
  productId :: number
  name :: string
  price :: number
  quantity :: number
  imageUrl :: "string option"
  discount :: "number option"

text \<open>
  The product descriptor that \<^verbatim>\<open>addItem\<close> receives (line 61):
  \<^verbatim>\<open>{ productId; name; price; imgName?; discount? }\<close>. Its fields carry the prefix
  \<open>p_\<close>, since a record cannot share field names with \<open>CartItem\<close>.
\<close>

record Product =
  p_productId :: number
  p_name :: string
  p_price :: number
  p_imgName :: "string option"
  p_discount :: "number option"

subsection \<open>JavaScript numbers in arithmetic (IEEE 754 binary64)\<close>

text \<open>
  The operators \<^verbatim>\<open>+\<close>, \<^verbatim>\<open>-\<close>, \<^verbatim>\<open>*\<close> and \<^verbatim>\<open>>=\<close> of the derived values work on
  doubles. A double is a finite value, one of the two infinities, or \<^verbatim>\<open>NaN\<close>. A finite
  double is \<open>m * 2 ^ e\<close> with integers \<open>\<bar>m\<bar> < 2 ^ 53\<close> and \<open>e \<ge> - 1074\<close>, of magnitude
  below \<open>2 ^ 1024\<close>; \<open>Finite\<close> carries its exact value. The sign of zero is not kept:
  sums, differences, products, comparisons and the truthiness test give the same
  result for \<^verbatim>\<open>-0\<close> as for \<^verbatim>\<open>0\<close>, up to the sign of a zero.
\<close>

datatype double = Finite rat | PosInf | NegInf | NaN

text \<open>The integer nearest to a rational, a tie going to the even neighbour.\<close>

definition roundHalfEven :: "rat \<Rightarrow> int" where
  "roundHalfEven m =
     (let f = \<lfloor>m\<rfloor>; r = m - of_int f
      in if r < 1 / 2 then f else if 1 / 2 < r then f + 1 else if even f then f else f + 1)"

text \<open>The number of binary digits of a positive integer.\<close>

function bitLength :: "int \<Rightarrow> nat" where
  "bitLength n = (if n \<le> 0 then 0 else Suc (bitLength (n div 2)))"
  by pat_completeness auto
termination
  by (relation "measure nat") auto

declare bitLength.simps [simp del]

text \<open>
  The binary exponent of a positive rational \<open>a\<close>: the integer \<open>e\<close> with
  \<open>2 ^ e \<le> a < 2 ^ (e + 1)\<close> (lemma \<open>binaryExponent_bounds\<close>). The difference of the bit
  lengths of numerator and denominator is \<open>e\<close> or \<open>e + 1\<close>.
\<close>

definition binaryExponent :: "rat \<Rightarrow> int" where
  "binaryExponent a =
     (let k = int (bitLength (fst (quotient_of a))) - int (bitLength (snd (quotient_of a)))
      in if 2 powi k \<le> a then k else k - 1)"

text \<open>
  The Number value of a real: the double nearest to it, a tie going to the even
  significand. A numeric literal and a number of a JSON text denote the Number value of
  their decimal value, and every arithmetic operation returns the Number value of its
  exact result. Between \<open>2 ^ e\<close> and \<open>2 ^ (e + 1)\<close> the doubles are \<open>2 ^ (e - 52)\<close> apart,
  and \<open>2 ^ - 1074\<close> apart below \<open>2 ^ - 1022\<close>; a magnitude that rounds to \<open>2 ^ 1024\<close> or
  more gives an infinity.
\<close>

definition roundToDouble :: "rat \<Rightarrow> double" where
  "roundToDouble q =
     (if q = 0 then Finite 0
      else
        let a = \<bar>q\<bar>;
            p = max (binaryExponent a - 52) (- 1074);
            x = of_int (roundHalfEven (a / 2 powi p)) * 2 powi p
        in if of_int (2 ^ 1024) \<le> x then (if 0 < q then PosInf else NegInf)
           else Finite (if 0 < q then x else - x))"

text \<open>
  The operators on doubles, after \<^verbatim>\<open>Number::add\<close>, \<^verbatim>\<open>Number::subtract\<close>,
  \<^verbatim>\<open>Number::multiply\<close> and the relational comparison of ECMAScript: a \<^verbatim>\<open>NaN\<close> operand
  gives \<^verbatim>\<open>NaN\<close>, and \<^verbatim>\<open>false\<close> in a comparison; opposite infinities add to \<^verbatim>\<open>NaN\<close>; an
  infinity times zero is \<^verbatim>\<open>NaN\<close>; finite operands give the Number value of the exact
  result.
\<close>

instantiation double :: "{zero, one, uminus, plus, minus, times, ord}"
begin

definition zero_double :: double where
  "zero_double = Finite 0"

definition one_double :: double where
  "one_double = Finite 1"

fun uminus_double :: "double \<Rightarrow> double" where
  "uminus_double (Finite a) = Finite (- a)"
| "uminus_double PosInf = NegInf"
| "uminus_double NegInf = PosInf"
| "uminus_double NaN = NaN"

fun plus_double :: "double \<Rightarrow> double \<Rightarrow> double" where
  "plus_double (Finite a) (Finite b) = roundToDouble (a + b)"
| "plus_double NaN y = NaN"
| "plus_double x NaN = NaN"
| "plus_double PosInf NegInf = NaN"
| "plus_double NegInf PosInf = NaN"
| "plus_double PosInf y = PosInf"
| "plus_double x PosInf = PosInf"
| "plus_double NegInf y = NegInf"
| "plus_double x NegInf = NegInf"

definition minus_double :: "double \<Rightarrow> double \<Rightarrow> double" where
  "minus_double x y = x + (- y)"

fun times_double :: "double \<Rightarrow> double \<Rightarrow> double" where
  "times_double (Finite a) (Finite b) = roundToDouble (a * b)"
| "times_double NaN y = NaN"
| "times_double x NaN = NaN"
| "times_double PosInf (Finite b) = (if b = 0 then NaN else if 0 < b then PosInf else NegInf)"
| "times_double NegInf (Finite b) = (if b = 0 then NaN else if 0 < b then NegInf else PosInf)"
| "times_double (Finite a) PosInf = (if a = 0 then NaN else if 0 < a then PosInf else NegInf)"
| "times_double (Finite a) NegInf = (if a = 0 then NaN else if 0 < a then NegInf else PosInf)"
| "times_double PosInf PosInf = PosInf"
| "times_double PosInf NegInf = NegInf"
| "times_double NegInf PosInf = NegInf"
| "times_double NegInf NegInf = PosInf"

fun less_eq_double :: "double \<Rightarrow> double \<Rightarrow> bool" where
  "less_eq_double (Finite a) (Finite b) = (a \<le> b)"
| "less_eq_double NaN y = False"
| "less_eq_double x NaN = False"
| "less_eq_double NegInf y = True"
| "less_eq_double x PosInf = True"
| "less_eq_double PosInf y = False"
| "less_eq_double x NegInf = False"

fun less_double :: "double \<Rightarrow> double \<Rightarrow> bool" where
  "less_double (Finite a) (Finite b) = (a < b)"
| "less_double NaN y = False"
| "less_double x NaN = False"
| "less_double PosInf y = False"
| "less_double x NegInf = False"
| "less_double NegInf y = True"
| "less_double x PosInf = True"

instance ..

end

text \<open>\<^verbatim>\<open>ToBoolean\<close> of a number: \<^verbatim>\<open>0\<close> and \<^verbatim>\<open>NaN\<close> are falsy, every other number is truthy.\<close>

definition truthy :: "double \<Rightarrow> bool" where
  "truthy x =
     (case x of Finite a \<Rightarrow> a \<noteq> 0 | PosInf \<Rightarrow> True | NegInf \<Rightarrow> True | NaN \<Rightarrow> False)"

subsection \<open>Derived values (lines 50 to 59)\<close>

text \<open>
  \<^verbatim>\<open>const itemPrice = item.discount ? item.price * (1 - item.discount) : item.price\<close>.
  The condition is the JavaScript truthiness of an optional number: \<^verbatim>\<open>undefined\<close> and
  \<^verbatim>\<open>0\<close> are falsy. A field enters the arithmetic as the double that its decimal value
  denotes; a value that is a double is read as itself (lemma \<open>roundToDouble_idem\<close>).
\<close>

definition itemPrice :: "CartItem \<Rightarrow> double" where
  "itemPrice item =
     (case discount item of
        None \<Rightarrow> roundToDouble (price item)
      | Some d \<Rightarrow>
          if truthy (roundToDouble d)
          then roundToDouble (price item) * (1 - roundToDouble d)
          else roundToDouble (price item))"

text \<open>\<^verbatim>\<open>items.reduce((sum, item) => sum + item.quantity, 0)\<close>\<close>

definition totalItems :: "CartItem list \<Rightarrow> double" where
  "totalItems items = foldl (\<lambda>sum item. sum + roundToDouble (quantity item)) 0 items"

text \<open>\<^verbatim>\<open>items.reduce((sum, item) => sum + (itemPrice * item.quantity), 0)\<close>\<close>

definition subtotal :: "CartItem list \<Rightarrow> double" where
  "subtotal items =
     foldl (\<lambda>sum item. sum + itemPrice item * roundToDouble (quantity item)) 0 items"

text \<open>\<^verbatim>\<open>const shipping = subtotal >= 100 ? 0 : 25\<close>\<close>

definition shipping :: "CartItem list \<Rightarrow> double" where
  "shipping items = (if subtotal items \<ge> Finite 100 then Finite 0 else Finite 25)"

text \<open>
  \<^verbatim>\<open>const total = subtotal + shipping\<close>. The constant is named \<open>total_due\<close>
  here, \<open>total\<close> being a notion of relations in HOL.
\<close>

definition total_due :: "CartItem list \<Rightarrow> double" where
  "total_due items = subtotal items + shipping items"

subsection \<open>Mutations (lines 61 to 105)\<close>

text \<open>
  \<^verbatim>\<open>addItem\<close>: \<^verbatim>\<open>prevItems.find\<close> returns the first line item with the product's
  id or \<^verbatim>\<open>undefined\<close>; a found object is truthy. On a hit every line item with that id
  gets the quantity added, the other fields copied by the spread; on a miss a new line
  item is appended.
\<close>

definition addItem :: "Product \<Rightarrow> number \<Rightarrow> CartItem list \<Rightarrow> CartItem list" where
  "addItem product qty prevItems =
     (case find (\<lambda>item. productId item = p_productId product) prevItems of
        Some existingItem \<Rightarrow>
          map (\<lambda>item. if productId item = p_productId product
                       then item\<lparr>quantity := quantity item + qty\<rparr>
                       else item) prevItems
      | None \<Rightarrow>
          prevItems @ [\<lparr>productId = p_productId product,
                        name = p_name product,
                        price = p_price product,
                        quantity = qty,
                        imageUrl = p_imgName product,
                        discount = p_discount product\<rparr>])"

text \<open>\<^verbatim>\<open>prevItems.filter(item => item.productId !== productId)\<close>\<close>

definition removeItem :: "number \<Rightarrow> CartItem list \<Rightarrow> CartItem list" where
  "removeItem pid prevItems = filter (\<lambda>item. productId item \<noteq> pid) prevItems"

text \<open>
  \<^verbatim>\<open>updateQuantity\<close> (the spec's \<^verbatim>\<open>setQuantity\<close>): a quantity \<^verbatim>\<open><= 0\<close> calls
  \<^verbatim>\<open>removeItem\<close> and returns; otherwise every line item with the id gets the new
  quantity.
\<close>

definition updateQuantity :: "number \<Rightarrow> number \<Rightarrow> CartItem list \<Rightarrow> CartItem list" where
  "updateQuantity pid qty prevItems =
     (if qty \<le> 0 then removeItem pid prevItems
      else map (\<lambda>item. if productId item = pid then item\<lparr>quantity := qty\<rparr> else item)
             prevItems)"

text \<open>\<^verbatim>\<open>setItems([])\<close>\<close>

definition clearCart :: "CartItem list \<Rightarrow> CartItem list" where
  "clearCart prevItems = []"

section \<open>The persisted snapshot\<close>

text \<open>
  \<^verbatim>\<open>CartProvider\<close> keeps the cart in \<^verbatim>\<open>localStorage\<close> under the key
  \<^verbatim>\<open>'octocat-cart'\<close> as the text \<^verbatim>\<open>JSON.stringify(items)\<close> and restores it with
  \<^verbatim>\<open>JSON.parse\<close> (lines 31 to 48). \<^verbatim>\<open>JSON.parse\<close> and \<^verbatim>\<open>JSON.stringify\<close> are
  functions of the JavaScript runtime; they are embedded here after the JSON grammar
  (ECMA-404) and the ECMAScript algorithms \<^verbatim>\<open>SerializeJSONProperty\<close> and
  \<^verbatim>\<open>QuoteJSONString\<close>, within these limits:
  \<^item> a string is a list of \<open>char\<close>, that is of code units below 256; an escape
    \<^verbatim>\<open>\uXXXX\<close> is decoded modulo 256;
  \<^item> a number is the exact rational that its text denotes, without the rounding to an
    IEEE double, and the text of a number is written from its exact decimal expansion
    by the rules of \<^verbatim>\<open>Number::toString\<close>.
\<close>

subsection \<open>JSON values\<close>

text \<open>
  The values \<^verbatim>\<open>JSON.parse\<close> returns. An object keeps its members in source order,
  duplicates included; a property read takes the last member with the key.
\<close>

datatype json = JNull | JBool bool | JNumber number | JString string
  | JArray "json list" | JObject "(string \<times> json) list"

text \<open>The errors that the runtime throws in the code embedded here.\<close>

datatype js_error = SyntaxError | TypeError

subsection \<open>\<^verbatim>\<open>JSON.parse\<close>: tokens\<close>

datatype token = LBracket | RBracket | LBrace | RBrace | Colon | Comma | Scalar json

text \<open>JSON whitespace: space, tab, line feed, carriage return.\<close>

definition isWhitespace :: "char \<Rightarrow> bool" where
  "isWhitespace c = (c = CHR '' '' \<or> c = CHR 0x09 \<or> c = CHR 0x0A \<or> c = CHR 0x0D)"

definition isDigit :: "char \<Rightarrow> bool" where
  "isDigit c = ((48::nat) \<le> of_char c \<and> of_char c \<le> (57::nat))"

definition digitVal :: "char \<Rightarrow> nat" where
  "digitVal c = of_char c - 48"

definition hexVal :: "char \<Rightarrow> nat option" where
  "hexVal c =
     (let n = (of_char c :: nat) in
      if 48 \<le> n \<and> n \<le> 57 then Some (n - 48)
      else if 97 \<le> n \<and> n \<le> 102 then Some (n - 87)
      else if 65 \<le> n \<and> n \<le> 70 then Some (n - 55)
      else None)"

definition hex4 :: "char \<Rightarrow> char \<Rightarrow> char \<Rightarrow> char \<Rightarrow> nat option" where
  "hex4 a b c d =
     (case (hexVal a, hexVal b, hexVal c, hexVal d) of
        (Some x, Some y, Some z, Some w) \<Rightarrow> Some (((x * 16 + y) * 16 + z) * 16 + w)
      | _ \<Rightarrow> None)"

text \<open>The character after a backslash, other than \<^verbatim>\<open>u\<close>.\<close>

definition unescape :: "char \<Rightarrow> char option" where
  "unescape e =
     (if e = CHR 0x22 then Some (CHR 0x22)
      else if e = CHR 0x5C then Some (CHR 0x5C)
      else if e = CHR ''/'' then Some (CHR ''/'')
      else if e = CHR ''b'' then Some (CHR 0x08)
      else if e = CHR ''f'' then Some (CHR 0x0C)
      else if e = CHR ''n'' then Some (CHR 0x0A)
      else if e = CHR ''r'' then Some (CHR 0x0D)
      else if e = CHR ''t'' then Some (CHR 0x09)
      else None)"

definition consChar :: "char \<Rightarrow> (string \<times> string) option \<Rightarrow> (string \<times> string) option" where
  "consChar c r = (case r of None \<Rightarrow> None | Some (s, rest) \<Rightarrow> Some (c # s, rest))"

text \<open>
  The characters of a string literal after its opening quote, up to the closing quote:
  the decoded string and the text that follows. A raw control character, an unknown
  escape and a missing closing quote are syntax errors.
\<close>

fun lexString :: "string \<Rightarrow> (string \<times> string) option" where
  "lexString [] = None"
| "lexString (c # cs) =
     (if c = CHR 0x22 then Some ([], cs)
      else if c = CHR 0x5C then
        (case cs of
           [] \<Rightarrow> None
         | e # cs1 \<Rightarrow>
             if e = CHR ''u'' then
               (case cs1 of
                  h1 # h2 # h3 # h4 # cs2 \<Rightarrow>
                    (case hex4 h1 h2 h3 h4 of
                       None \<Rightarrow> None
                     | Some n \<Rightarrow> consChar (char_of n) (lexString cs2))
                | _ \<Rightarrow> None)
             else
               (case unescape e of
                  None \<Rightarrow> None
                | Some ch \<Rightarrow> consChar ch (lexString cs1)))
      else if (of_char c :: nat) < 0x20 then None
      else consChar c (lexString cs))"

definition natOfDigits :: "string \<Rightarrow> nat" where
  "natOfDigits ds = foldl (\<lambda>n c. 10 * n + digitVal c) 0 ds"

text \<open>The optional fraction of a number: a point and at least one digit.\<close>

definition lexFraction :: "string \<Rightarrow> (string \<times> string) option" where
  "lexFraction cs =
     (case cs of
        c # r \<Rightarrow>
          if c = CHR ''.'' then
            (if takeWhile isDigit r = [] then None
             else Some (takeWhile isDigit r, dropWhile isDigit r))
          else Some ([], cs)
      | [] \<Rightarrow> Some ([], cs))"

definition lexExponentDigits :: "bool \<Rightarrow> string \<Rightarrow> (int \<times> string) option" where
  "lexExponentDigits neg cs =
     (if takeWhile isDigit cs = [] then None
      else Some ((if neg then - int (natOfDigits (takeWhile isDigit cs))
                  else int (natOfDigits (takeWhile isDigit cs))),
                 dropWhile isDigit cs))"

text \<open>The optional exponent: \<^verbatim>\<open>e\<close> or \<^verbatim>\<open>E\<close>, an optional sign, at least one digit.\<close>

definition lexExponent :: "string \<Rightarrow> (int \<times> string) option" where
  "lexExponent cs =
     (case cs of
        [] \<Rightarrow> Some (0, cs)
      | c # r \<Rightarrow>
          if c \<noteq> CHR ''e'' \<and> c \<noteq> CHR ''E'' then Some (0, cs)
          else
            (case r of
               [] \<Rightarrow> None
             | sc # r1 \<Rightarrow>
                 if sc = CHR ''-'' then lexExponentDigits True r1
                 else if sc = CHR ''+'' then lexExponentDigits False r1
                 else lexExponentDigits False r))"

definition scale10 :: "number \<Rightarrow> int \<Rightarrow> number" where
  "scale10 x e = (if 0 \<le> e then x * 10 ^ nat e else x / 10 ^ nat (- e))"

text \<open>
  A number: an optional minus, an integer part without a leading zero (unless it is the
  single digit 0), an optional fraction, an optional exponent.
\<close>

definition lexNumber :: "string \<Rightarrow> (number \<times> string) option" where
  "lexNumber cs =
     (let neg = (cs \<noteq> [] \<and> hd cs = CHR ''-'');
          cs1 = (if neg then tl cs else cs);
          ds = takeWhile isDigit cs1
      in if ds = [] \<or> (1 < length ds \<and> hd ds = CHR ''0'') then None
         else
           (case lexFraction (dropWhile isDigit cs1) of
              None \<Rightarrow> None
            | Some (fs, cs2) \<Rightarrow>
                (case lexExponent cs2 of
                   None \<Rightarrow> None
                 | Some (e, rest) \<Rightarrow>
                     let m = of_nat (natOfDigits ds) + of_nat (natOfDigits fs) / 10 ^ length fs
                     in Some (scale10 (if neg then - m else m) e, rest))))"

text \<open>Each of the scanners leaves a shorter text, so the tokenizer terminates.\<close>

lemma lexString_length: "lexString cs = Some (s, rest) \<Longrightarrow> length rest < length cs"
proof (induction "length cs" arbitrary: cs s rest rule: less_induct)
  case less
  show ?case
  proof (cases cs)
    case Nil
    with less.prems show ?thesis by simp
  next
    case (Cons c cs')
    with less.prems show ?thesis
      by (auto simp: consChar_def split: if_splits list.splits option.splits
          dest!: less.hyps [rotated])
  qed
qed

lemma lexFraction_length: "lexFraction cs = Some (fs, rest) \<Longrightarrow> length rest \<le> length cs"
  by (auto simp: lexFraction_def length_dropWhile_le le_SucI split: list.splits if_splits)

lemma lexExponentDigits_length:
  "lexExponentDigits neg cs = Some (e, rest) \<Longrightarrow> length rest \<le> length cs"
  by (auto simp: lexExponentDigits_def length_dropWhile_le split: if_splits)

lemma lexExponent_length: "lexExponent cs = Some (e, rest) \<Longrightarrow> length rest \<le> length cs"
  by (auto simp: lexExponent_def split: list.splits if_splits
      dest!: lexExponentDigits_length)

lemma lexNumber_length:
  assumes "lexNumber cs = Some (x, rest)"
  shows "length rest < length cs"
proof -
  define cs1 where "cs1 = (if cs \<noteq> [] \<and> hd cs = CHR ''-'' then tl cs else cs)"
  have le1: "length cs1 \<le> length cs"
    by (simp add: cs1_def)
  from assms have ds: "takeWhile isDigit cs1 \<noteq> []"
    by (auto simp: lexNumber_def Let_def cs1_def split: if_splits)
  from assms obtain fs cs2 e where
    f: "lexFraction (dropWhile isDigit cs1) = Some (fs, cs2)" and
    e: "lexExponent cs2 = Some (e, rest)"
    by (auto simp: lexNumber_def Let_def cs1_def split: if_splits option.splits)
  have "length (takeWhile isDigit cs1) + length (dropWhile isDigit cs1) = length cs1"
    by (metis length_append takeWhile_dropWhile_id)
  with ds have "length (dropWhile isDigit cs1) < length cs1"
    by (cases "takeWhile isDigit cs1") auto
  with lexFraction_length [OF f] lexExponent_length [OF e] le1 show ?thesis
    by simp
qed

definition consTok :: "token \<Rightarrow> token list option \<Rightarrow> token list option" where
  "consTok t r = (case r of None \<Rightarrow> None | Some ts \<Rightarrow> Some (t # ts))"

text \<open>The tokens of a text; \<open>None\<close> when some character starts no token.\<close>

function tokenize :: "string \<Rightarrow> token list option" where
  "tokenize [] = Some []"
| "tokenize (c # cs) =
     (if isWhitespace c then tokenize cs
      else if c = CHR ''['' then consTok LBracket (tokenize cs)
      else if c = CHR '']'' then consTok RBracket (tokenize cs)
      else if c = CHR ''{'' then consTok LBrace (tokenize cs)
      else if c = CHR ''}'' then consTok RBrace (tokenize cs)
      else if c = CHR '':'' then consTok Colon (tokenize cs)
      else if c = CHR '','' then consTok Comma (tokenize cs)
      else if c = CHR 0x22 then
        (case lexString cs of
           None \<Rightarrow> None
         | Some (s, rest) \<Rightarrow> consTok (Scalar (JString s)) (tokenize rest))
      else if c = CHR ''-'' \<or> isDigit c then
        (case lexNumber (c # cs) of
           None \<Rightarrow> None
         | Some (x, rest) \<Rightarrow> consTok (Scalar (JNumber x)) (tokenize rest))
      else if c = CHR ''t'' \<and> take 3 cs = ''rue'' then
        consTok (Scalar (JBool True)) (tokenize (drop 3 cs))
      else if c = CHR ''f'' \<and> take 4 cs = ''alse'' then
        consTok (Scalar (JBool False)) (tokenize (drop 4 cs))
      else if c = CHR ''n'' \<and> take 3 cs = ''ull'' then
        consTok (Scalar JNull) (tokenize (drop 3 cs))
      else None)"
  by pat_completeness auto
termination
proof (relation "measure length")
  show "wf (measure length)" by simp
next
  fix c cs x2 x y
  assume "lexString cs = Some x2" "(x, y) = x2"
  then have "length y < length cs"
    using lexString_length [of cs x y] by simp
  then show "(y, c # cs) \<in> measure length" by simp
next
  fix c cs x2 x y
  assume "lexNumber (c # cs) = Some x2" "(x, y) = x2"
  then have "length y < length (c # cs)"
    using lexNumber_length [of "c # cs" x y] by simp
  then show "(y, c # cs) \<in> measure length" by simp
qed simp_all

subsection \<open>\<^verbatim>\<open>JSON.parse\<close>: values\<close>

text \<open>
  The grammar of values is read by a machine with a stack of open containers: an open
  array holds its elements so far (latest first), an open object its members so far and
  the key whose value is awaited. Each token is consumed once.
\<close>

datatype frame = ArrayFrame "json list" | ObjectFrame "(string \<times> json) list" string

datatype pstate =
    AwaitValue "frame list"
  | AwaitValueOrClose "frame list"
  | AwaitKeyOrClose "frame list"
  | AwaitKey "(string \<times> json) list" "frame list"
  | AwaitColon "(string \<times> json) list" string "frame list"
  | AfterElement "json list" "frame list"
  | AfterMember "(string \<times> json) list" "frame list"
  | Done json

text \<open>A finished value goes to the innermost open container, or is the result.\<close>

fun deliver :: "json \<Rightarrow> frame list \<Rightarrow> pstate" where
  "deliver v [] = Done v"
| "deliver v (ArrayFrame es # st) = AfterElement (v # es) st"
| "deliver v (ObjectFrame ms k # st) = AfterMember ((k, v) # ms) st"

fun startValue :: "frame list \<Rightarrow> token \<Rightarrow> pstate option" where
  "startValue st (Scalar v) = Some (deliver v st)"
| "startValue st LBracket = Some (AwaitValueOrClose st)"
| "startValue st LBrace = Some (AwaitKeyOrClose st)"
| "startValue st _ = None"

fun step :: "pstate \<Rightarrow> token \<Rightarrow> pstate option" where
  "step (AwaitValue st) t = startValue st t"
| "step (AwaitValueOrClose st) t =
     (if t = RBracket then Some (deliver (JArray []) st)
      else startValue (ArrayFrame [] # st) t)"
| "step (AwaitKeyOrClose st) t =
     (case t of
        RBrace \<Rightarrow> Some (deliver (JObject []) st)
      | Scalar (JString k) \<Rightarrow> Some (AwaitColon [] k st)
      | _ \<Rightarrow> None)"
| "step (AwaitKey ms st) t =
     (case t of Scalar (JString k) \<Rightarrow> Some (AwaitColon ms k st) | _ \<Rightarrow> None)"
| "step (AwaitColon ms k st) t =
     (if t = Colon then Some (AwaitValue (ObjectFrame ms k # st)) else None)"
| "step (AfterElement es st) t =
     (case t of
        Comma \<Rightarrow> Some (AwaitValue (ArrayFrame es # st))
      | RBracket \<Rightarrow> Some (deliver (JArray (rev es)) st)
      | _ \<Rightarrow> None)"
| "step (AfterMember ms st) t =
     (case t of
        Comma \<Rightarrow> Some (AwaitKey ms st)
      | RBrace \<Rightarrow> Some (deliver (JObject (rev ms)) st)
      | _ \<Rightarrow> None)"
| "step (Done v) t = None"

fun run :: "pstate \<Rightarrow> token list \<Rightarrow> pstate option" where
  "run s [] = Some s"
| "run s (t # ts) = (case step s t of None \<Rightarrow> None | Some s' \<Rightarrow> run s' ts)"

text \<open>
  \<^verbatim>\<open>JSON.parse(text)\<close>: the value, or the \<^verbatim>\<open>SyntaxError\<close> it throws when the text is
  not exactly one JSON value.
\<close>

definition JSON_parse :: "string \<Rightarrow> js_error + json" where
  "JSON_parse text =
     (case tokenize text of
        None \<Rightarrow> Inl SyntaxError
      | Some ts \<Rightarrow>
          (case run (AwaitValue []) ts of
             Some (Done v) \<Rightarrow> Inr v
           | _ \<Rightarrow> Inl SyntaxError))"

subsection \<open>\<^verbatim>\<open>JSON.stringify\<close>\<close>

definition digitChar :: "nat \<Rightarrow> char" where
  "digitChar n = char_of (48 + n)"

fun natDigits :: "nat \<Rightarrow> string" where
  "natDigits n =
     (if n < 10 then [digitChar n] else natDigits (n div 10) @ [digitChar (n mod 10)])"

declare natDigits.simps [simp del]

text \<open>
  The digits after the point of a fraction \<open>0 \<le> f < 1\<close>, until the remainder is zero.
  The first argument bounds their number; the denominator of the number is passed,
  which no terminating expansion exceeds.
\<close>

fun fracDigits :: "nat \<Rightarrow> number \<Rightarrow> string" where
  "fracDigits 0 f = []"
| "fracDigits (Suc n) f =
     (if f = 0 then []
      else digitChar (nat \<lfloor>10 * f\<rfloor>) # fracDigits n (10 * f - of_int \<lfloor>10 * f\<rfloor>))"

definition denominator :: "number \<Rightarrow> nat" where
  "denominator x = nat (snd (quotient_of x))"

text \<open>
  \<^verbatim>\<open>Number::toString\<close> for a positive number. With \<open>s\<close> the significant digits of the
  number (no zero in front, none behind) and \<open>e\<close> the decimal exponent of its first
  digit, JavaScript writes the positional notation when \<open>-7 < e < 21\<close>, that is for
  \<^verbatim>\<open>1e-6\<close> \<open>\<le> x <\<close> \<^verbatim>\<open>1e21\<close>, and the scientific notation otherwise: the first digit,
  the others behind a point when there are any, \<^verbatim>\<open>e\<close>, the sign of the exponent and
  its digits.
\<close>

definition positionalText :: "number \<Rightarrow> string" where
  "positionalText x =
     natDigits (nat \<lfloor>x\<rfloor>)
     @ (if frac x = 0 then [] else CHR ''.'' # fracDigits (denominator x) (frac x))"

definition stripTrailingZeros :: "string \<Rightarrow> string" where
  "stripTrailingZeros ds = rev (dropWhile (\<lambda>c. c = CHR ''0'') (rev ds))"

definition significand :: "number \<Rightarrow> string" where
  "significand x =
     (if 1 \<le> x
      then stripTrailingZeros (natDigits (nat \<lfloor>x\<rfloor>) @ fracDigits (denominator x) (frac x))
      else dropWhile (\<lambda>c. c = CHR ''0'') (fracDigits (denominator x) (frac x)))"

definition decimalExponent :: "number \<Rightarrow> int" where
  "decimalExponent x =
     (if 1 \<le> x then int (length (natDigits (nat \<lfloor>x\<rfloor>))) - 1
      else - int (length (takeWhile (\<lambda>c. c = CHR ''0'')
                   (fracDigits (denominator x) (frac x)))) - 1)"

definition scientificText :: "string \<Rightarrow> int \<Rightarrow> string" where
  "scientificText s e =
     (case s of
        [] \<Rightarrow> []
      | d # ds \<Rightarrow>
          d # (if ds = [] then [] else CHR ''.'' # ds)
          @ CHR ''e'' # (if 0 \<le> e then CHR ''+'' else CHR ''-'') # natDigits (nat \<bar>e\<bar>))"

definition scientificRange :: "number \<Rightarrow> bool" where
  "scientificRange x = (x \<noteq> 0 \<and> (x < 1 / 10 ^ 6 \<or> 10 ^ 21 \<le> x))"

definition unsignedText :: "number \<Rightarrow> string" where
  "unsignedText x =
     (if scientificRange x
      then scientificText (significand x) (decimalExponent x)
      else positionalText x)"

definition numberText :: "number \<Rightarrow> string" where
  "numberText x = (if x < 0 then CHR ''-'' # unsignedText (- x) else unsignedText x)"

text \<open>A hexadecimal digit, in lower case as \<^verbatim>\<open>JSON.stringify\<close> writes it.\<close>

definition hexDigit :: "nat \<Rightarrow> char" where
  "hexDigit n = char_of (if n < 10 then 48 + n else 87 + n)"

text \<open>
  \<^verbatim>\<open>QuoteJSONString\<close>: the short escapes, \<^verbatim>\<open>\u00XX\<close> for the other control
  characters, every other character as it is.
\<close>

definition quoteChar :: "char \<Rightarrow> string" where
  "quoteChar c =
     (if c = CHR 0x08 then [CHR 0x5C, CHR ''b'']
      else if c = CHR 0x09 then [CHR 0x5C, CHR ''t'']
      else if c = CHR 0x0A then [CHR 0x5C, CHR ''n'']
      else if c = CHR 0x0C then [CHR 0x5C, CHR ''f'']
      else if c = CHR 0x0D then [CHR 0x5C, CHR ''r'']
      else if c = CHR 0x22 then [CHR 0x5C, CHR 0x22]
      else if c = CHR 0x5C then [CHR 0x5C, CHR 0x5C]
      else if (of_char c :: nat) < 0x20 then
        [CHR 0x5C, CHR ''u'', CHR ''0'', CHR ''0'',
         hexDigit (of_char c div 16), hexDigit (of_char c mod 16)]
      else [c])"

definition quoteJSONString :: "string \<Rightarrow> string" where
  "quoteJSONString s = CHR 0x22 # concat (map quoteChar s) @ [CHR 0x22]"

text \<open>The parts of a list, with a separator between neighbours.\<close>

fun joinWith :: "'a \<Rightarrow> 'a list list \<Rightarrow> 'a list" where
  "joinWith sep [] = []"
| "joinWith sep [x] = x"
| "joinWith sep (x # y # ys) = x @ sep # joinWith sep (y # ys)"

text \<open>\<^verbatim>\<open>JSON.stringify(value)\<close> without indentation.\<close>

fun JSON_stringify :: "json \<Rightarrow> string" where
  "JSON_stringify JNull = ''null''"
| "JSON_stringify (JBool b) = (if b then ''true'' else ''false'')"
| "JSON_stringify (JNumber x) = numberText x"
| "JSON_stringify (JString s) = quoteJSONString s"
| "JSON_stringify (JArray vs) =
     CHR ''['' # joinWith (CHR '','') (map JSON_stringify vs) @ '']''"
| "JSON_stringify (JObject ms) =
     CHR ''{'' # joinWith (CHR '','')
        (map (\<lambda>(k, v). quoteJSONString k @ CHR '':'' # JSON_stringify v) ms) @ ''}''"

subsection \<open>The cart as a JavaScript value\<close>

text \<open>
  The state \<^verbatim>\<open>items\<close> is typed \<^verbatim>\<open>CartItem[]\<close>, but \<^verbatim>\<open>setItems(parsedCart)\<close> stores
  whatever \<^verbatim>\<open>JSON.parse\<close> returned. \<open>asCartItems\<close> reads a parsed value as a list of
  line items when it has that shape: an array of objects whose \<^verbatim>\<open>productId\<close>,
  \<^verbatim>\<open>price\<close> and \<^verbatim>\<open>quantity\<close> are numbers, whose \<^verbatim>\<open>name\<close> is a string, and whose
  \<^verbatim>\<open>imageUrl\<close> and \<^verbatim>\<open>discount\<close> are absent or a string and a number. Members with
  other keys are not part of the line item.
\<close>

definition getField :: "string \<Rightarrow> (string \<times> json) list \<Rightarrow> json option" where
  "getField k ms = map_of (rev ms) k"

definition optionalString :: "json option \<Rightarrow> string option option" where
  "optionalString f =
     (case f of None \<Rightarrow> Some None | Some (JString s) \<Rightarrow> Some (Some s) | _ \<Rightarrow> None)"

definition optionalNumber :: "json option \<Rightarrow> number option option" where
  "optionalNumber f =
     (case f of None \<Rightarrow> Some None | Some (JNumber x) \<Rightarrow> Some (Some x) | _ \<Rightarrow> None)"

definition asCartItem :: "json \<Rightarrow> CartItem option" where
  "asCartItem v =
     (case v of
        JObject ms \<Rightarrow>
          (case (getField ''productId'' ms, getField ''name'' ms,
                 getField ''price'' ms, getField ''quantity'' ms,
                 optionalString (getField ''imageUrl'' ms),
                 optionalNumber (getField ''discount'' ms)) of
             (Some (JNumber pid), Some (JString nm), Some (JNumber pr), Some (JNumber q),
              Some img, Some d) \<Rightarrow>
               Some \<lparr>productId = pid, name = nm, price = pr, quantity = q,
                     imageUrl = img, discount = d\<rparr>
           | _ \<Rightarrow> None)
      | _ \<Rightarrow> None)"

definition asCartItems :: "json \<Rightarrow> CartItem list option" where
  "asCartItems v = (case v of JArray vs \<Rightarrow> those (map asCartItem vs) | _ \<Rightarrow> None)"

text \<open>
  The other direction: a line item as \<^verbatim>\<open>JSON.stringify\<close> sees it, with the
  properties in the order in which \<^verbatim>\<open>addItem\<close> writes them (lines 72 to 79). A property
  whose value is \<^verbatim>\<open>undefined\<close> is left out of the text.
\<close>

definition itemJSON :: "CartItem \<Rightarrow> json" where
  "itemJSON item =
     JObject
       ([(''productId'', JNumber (productId item)),
         (''name'', JString (name item)),
         (''price'', JNumber (price item)),
         (''quantity'', JNumber (quantity item))]
        @ (case imageUrl item of None \<Rightarrow> [] | Some s \<Rightarrow> [(''imageUrl'', JString s)])
        @ (case discount item of None \<Rightarrow> [] | Some d \<Rightarrow> [(''discount'', JNumber d)]))"

definition cartJSON :: "CartItem list \<Rightarrow> json" where
  "cartJSON items = JArray (map itemJSON items)"

subsection \<open>The mount effects (lines 31 to 48)\<close>

text \<open>\<^verbatim>\<open>localStorage\<close>: \<^verbatim>\<open>getItem(k)\<close> is \<open>ls k\<close>, with \<open>None\<close> for \<^verbatim>\<open>null\<close>.\<close>

type_synonym localStorage = "string \<Rightarrow> string option"

definition cartKey :: string where
  "cartKey = ''octocat-cart''"

text \<open>
  What the load effect leaves behind: the value of the state \<^verbatim>\<open>items\<close>, the storage, and
  the diagnostics written with \<^verbatim>\<open>console.error\<close>.
\<close>

record Mounted =
  itemsState :: json
  storage :: localStorage
  consoleErrors :: "string list"

text \<open>
  The effect "Load cart from localStorage on mount" (lines 32 to 43), run on the initial
  state \<^verbatim>\<open>[]\<close>. \<^verbatim>\<open>if (savedCart)\<close> is false for \<^verbatim>\<open>null\<close> and for the empty string. The
  \<^verbatim>\<open>try\<close> block catches the error of \<^verbatim>\<open>JSON.parse\<close>, so the effect itself returns
  normally on every input.
\<close>

definition loadCart :: "localStorage \<Rightarrow> Mounted" where
  "loadCart ls =
     (case ls cartKey of
        None \<Rightarrow> \<lparr>itemsState = JArray [], storage = ls, consoleErrors = []\<rparr>
      | Some savedCart \<Rightarrow>
          if savedCart = [] then \<lparr>itemsState = JArray [], storage = ls, consoleErrors = []\<rparr>
          else
            (case JSON_parse savedCart of
               Inr parsedCart \<Rightarrow>
                 \<lparr>itemsState = parsedCart, storage = ls, consoleErrors = []\<rparr>
             | Inl error \<Rightarrow>
                 \<lparr>itemsState = JArray [], storage = ls(cartKey := None),
                  consoleErrors = [''Error loading cart from localStorage:'']\<rparr>))"

text \<open>
  The effect "Save cart to localStorage whenever items change" (lines 46 to 48):
  \<^verbatim>\<open>localStorage.setItem('octocat-cart', JSON.stringify(items))\<close>.
\<close>

definition saveCart :: "json \<Rightarrow> localStorage \<Rightarrow> localStorage" where
  "saveCart v ls = ls(cartKey \<mapsto> JSON_stringify v)"

text \<open>
  Rendering the provider computes the derived values with \<^verbatim>\<open>items.reduce\<close> (lines 51
  to 56); nothing in the provider catches an error of these lines. A state that is not
  an array has no method \<^verbatim>\<open>reduce\<close>: the call throws a \<^verbatim>\<open>TypeError\<close> (for an object,
  whatever it holds under the key \<^verbatim>\<open>reduce\<close> is no function). On an array the callbacks
  read \<^verbatim>\<open>item.quantity\<close>, \<^verbatim>\<open>item.discount\<close> and \<^verbatim>\<open>item.price\<close> of every element;
  reading a property of \<^verbatim>\<open>null\<close> throws a \<^verbatim>\<open>TypeError\<close>, and every other element is
  read and added or multiplied without an error.
\<close>

definition renderError :: "json \<Rightarrow> js_error option" where
  "renderError v =
     (case v of
        JArray vs \<Rightarrow> if JNull \<in> set vs then Some TypeError else None
      | _ \<Rightarrow> Some TypeError)"

text \<open>
  Mounting the provider. The first render has \<^verbatim>\<open>items = []\<close>. After it both effects
  run in source order with the \<^verbatim>\<open>items\<close> of that render: the load effect, then the
  save effect, which writes the text of the empty array. The provider then renders with
  the state that the load effect has set; an error thrown there reaches the caller.
  When that render returns, the save effect runs with the new \<^verbatim>\<open>items\<close>. The result
  is what the mount leaves behind and the error that reached the caller, if any. (When
  the load effect has set no state, nothing is rendered or saved a second time; the
  model renders and saves the empty array again, with the same result.)
\<close>

definition mount :: "localStorage \<Rightarrow> Mounted \<times> js_error option" where
  "mount ls =
     (let loaded = loadCart ls;
          saved = saveCart (JArray []) (storage loaded)
      in case renderError (itemsState loaded) of
           Some error \<Rightarrow> (loaded\<lparr>storage := saved\<rparr>, Some error)
         | None \<Rightarrow> (loaded\<lparr>storage := saveCart (itemsState loaded) saved\<rparr>, None))"


section \<open>Notions of the specification\<close>

text \<open>
  The discounted unit price in the words of the specification: \<open>unitPrice\<close> times
  \<open>1 - discountFraction\<close> when a discount fraction is present, \<open>unitPrice\<close> otherwise,
  in the arithmetic of JavaScript numbers.
\<close>

definition spec_discounted_price :: "CartItem \<Rightarrow> double" where
  "spec_discounted_price item =
     (case discount item of
        Some d \<Rightarrow> roundToDouble (price item) * (1 - roundToDouble d)
      | None \<Rightarrow> roundToDouble (price item))"

text \<open>
  The sum of a list of numbers, added from \<^verbatim>\<open>0\<close> in the order of the list. The order
  matters: the addition of doubles is not associative (lemma \<open>sumInOrder_order\<close>).
\<close>

definition sumInOrder :: "double list \<Rightarrow> double" where
  "sumInOrder xs = foldl (+) 0 xs"

text \<open>The line items of a cart that carry a given product id, in cart order.\<close>

definition lineItemsFor :: "number \<Rightarrow> CartItem list \<Rightarrow> CartItem list" where
  "lineItemsFor pid items = filter (\<lambda>item. productId item = pid) items"

text \<open>The invariant of the data model: at most one line item per product id.\<close>

definition uniqueProductIds :: "CartItem list \<Rightarrow> bool" where
  "uniqueProductIds items = distinct (map productId items)"

text \<open>
  The cart states that the mutation entry points can produce from a starting state
  \<open>init\<close>, in any number of calls and any order.
\<close>

inductive reachable :: "CartItem list \<Rightarrow> CartItem list \<Rightarrow> bool"
  for init :: "CartItem list" where
  initial: "reachable init init"
| add: "reachable init items \<Longrightarrow> reachable init (addItem product qty items)"
| remove: "reachable init items \<Longrightarrow> reachable init (removeItem pid items)"
| update: "reachable init items \<Longrightarrow> reachable init (updateQuantity pid qty items)"
| clear: "reachable init items \<Longrightarrow> reachable init (clearCart items)"

text \<open>
  The typed cart that the load effect restores from a storage, when the restored value
  has the shape of a cart.
\<close>

definition restoredCart :: "localStorage \<Rightarrow> CartItem list option" where
  "restoredCart ls = asCartItems (itemsState (loadCart ls))"

text \<open>
  "The persisted string deserializes into the expected shape": \<^verbatim>\<open>JSON.parse\<close>
  accepts it and the value is a list of line items.
\<close>

definition deserializesToCart :: "string \<Rightarrow> bool" where
  "deserializesToCart s =
     (case JSON_parse s of Inl e \<Rightarrow> False | Inr v \<Rightarrow> asCartItems v \<noteq> None)"

text \<open>
  A valid snapshot, after the data model of the specification: the product id is an
  integer, the quantity a positive integer, the unit price a non-negative decimal
  amount, and the discount, when present, a decimal fraction in \<open>[0, 1)\<close>. A decimal is a
  rational with a terminating decimal expansion: its denominator \<open>b\<close> divides a power of
  ten, which it does exactly when it divides \<open>10 ^ b\<close> (lemma \<open>isDecimal_iff\<close>).
\<close>

definition isInteger :: "number \<Rightarrow> bool" where
  "isInteger x = (of_int \<lfloor>x\<rfloor> = x)"

definition isDecimal :: "number \<Rightarrow> bool" where
  "isDecimal x = (snd (quotient_of x) dvd 10 ^ denominator x)"

definition validLineItem :: "CartItem \<Rightarrow> bool" where
  "validLineItem item =
     (isInteger (productId item)
      \<and> isInteger (quantity item) \<and> 0 < quantity item
      \<and> 0 \<le> price item \<and> isDecimal (price item)
      \<and> (case discount item of None \<Rightarrow> True | Some d \<Rightarrow> 0 \<le> d \<and> d < 1 \<and> isDecimal d))"

definition validSnapshot :: "CartItem list \<Rightarrow> bool" where
  "validSnapshot items = list_all validLineItem items"

subsection \<open>Notions for the round trip through the persisted text\<close>

text \<open>The JSON values all of whose numbers are decimals.\<close>

fun decimalJSON :: "json \<Rightarrow> bool" where
  "decimalJSON (JNumber x) = isDecimal x"
| "decimalJSON (JArray vs) = list_all decimalJSON vs"
| "decimalJSON (JObject ms) = list_all (\<lambda>m. decimalJSON (snd m)) ms"
| "decimalJSON v = True"

text \<open>The tokens of the text that \<^verbatim>\<open>JSON.stringify\<close> writes for a value.\<close>

fun tokens :: "json \<Rightarrow> token list" where
  "tokens (JArray vs) = LBracket # joinWith Comma (map tokens vs) @ [RBracket]"
| "tokens (JObject ms) =
     LBrace # joinWith Comma (map (\<lambda>(k, v). Scalar (JString k) # Colon # tokens v) ms)
       @ [RBrace]"
| "tokens v = [Scalar v]"

text \<open>A text before which a number ends: no digit, point or exponent mark comes next.\<close>

definition numberEnds :: "string \<Rightarrow> bool" where
  "numberEnds rest =
     (case rest of
        [] \<Rightarrow> True
      | c # cs \<Rightarrow> \<not> isDigit c \<and> c \<noteq> CHR ''.'' \<and> c \<noteq> CHR ''e'' \<and> c \<noteq> CHR ''E'')"

definition appendToks :: "token list \<Rightarrow> token list option \<Rightarrow> token list option" where
  "appendToks ts r = (case r of None \<Rightarrow> None | Some us \<Rightarrow> Some (ts @ us))"

section \<open>Sample data\<close>

text \<open>
  Carts and a product descriptor in the style of the test suite
  (\<^verbatim>\<open>Cart.test.tsx\<close>), used to evaluate the definitions at concrete inputs.
\<close>

text \<open>A storage that holds the given text under the cart's key and nothing else.\<close>

definition storageWith :: "string \<Rightarrow> localStorage" where
  "storageWith s = Map.empty(cartKey \<mapsto> s)"

text \<open>A snapshot with two line items for product 1, as a persisted text.\<close>

definition dupSnapshot :: string where
  \<open>dupSnapshot = ''[{"productId":1,"name":"Product 1","price":50,"quantity":2},{"productId":1,"name":"Product 1","price":50,"quantity":1}]''\<close>

definition cartA :: "CartItem list" where
  "cartA = [\<lparr>productId = 1, name = ''Product 1'', price = 50, quantity = 2,
             imageUrl = Some ''test.jpg'', discount = None\<rparr>,
            \<lparr>productId = 2, name = ''Product 2'', price = 30, quantity = 1,
             imageUrl = None, discount = Some (25 / 100)\<rparr>]"

definition cartDup :: "CartItem list" where
  "cartDup = [\<lparr>productId = 1, name = ''Product 1'', price = 50, quantity = 2,
             imageUrl = None, discount = None\<rparr>,
            \<lparr>productId = 1, name = ''Product 1'', price = 50, quantity = 1,
             imageUrl = None, discount = None\<rparr>]"

definition product1 :: Product where
  "product1 = \<lparr>p_productId = 1, p_name = ''Renamed'', p_price = 60,
                p_imgName = None, p_discount = Some (1 / 2)\<rparr>"

section \<open>Derived totals\<close>

subsection \<open>Rounding to a double\<close>

text \<open>A positive integer lies between the powers of two that its bit length names.\<close>

lemma bitLength_bounds:
  "0 < n \<Longrightarrow> n < 2 ^ bitLength n \<and> 2 ^ bitLength n \<le> 2 * n"
proof (induction n rule: bitLength.induct)
  case (1 n)
  have unfold: "bitLength n = Suc (bitLength (n div 2))"
    using 1(2) by (subst bitLength.simps) simp
  show ?case
  proof (cases "0 < n div 2")
    case True
    have ih: "n div 2 < 2 ^ bitLength (n div 2)" "2 ^ bitLength (n div 2) \<le> 2 * (n div 2)"
      using 1(1) 1(2) True by simp_all
    have "n < 2 * (n div 2 + 1)"
      by presburger
    also have "\<dots> \<le> 2 * 2 ^ bitLength (n div 2)"
      using ih(1) by simp
    finally have a: "n < 2 ^ bitLength n"
      by (simp add: unfold)
    have "2 * (n div 2) \<le> n"
      by presburger
    then have b: "2 ^ bitLength n \<le> 2 * n"
      using ih(2) by (simp add: unfold)
    from a b show ?thesis ..
  next
    case False
    then have n: "n = 1"
      using 1(2) by presburger
    have "bitLength (0::int) = 0"
      by (subst bitLength.simps) simp
    then show ?thesis
      using unfold by (simp add: n)
  qed
qed

lemma pow2_less_cancel: "(2::rat) powi m < 2 powi n \<Longrightarrow> m < n"
  using power_int_increasing [of n m "2::rat"] by (cases "m < n") auto

lemma binaryExponent_unique:
  assumes "2 powi e \<le> (a::rat)" "a < 2 powi (e + 1)" "2 powi e' \<le> a" "a < 2 powi (e' + 1)"
  shows "e = e'"
proof -
  have "(2::rat) powi e < 2 powi (e' + 1)"
    using assms(1) assms(4) by simp
  then have 1: "e < e' + 1"
    by (rule pow2_less_cancel)
  have "(2::rat) powi e' < 2 powi (e + 1)"
    using assms(2) assms(3) by simp
  then have 2: "e' < e + 1"
    by (rule pow2_less_cancel)
  from 1 2 show ?thesis by simp
qed


lemma pow2_pos: "0 < (2::rat) powi n"
  by simp

text \<open>
  The binary exponent brackets a positive rational, and no other integer does.
\<close>

lemma binaryExponent_bounds:
  assumes "0 < a"
  shows "2 powi binaryExponent a \<le> a \<and> a < 2 powi (binaryExponent a + 1)"
proof -
  obtain n d where qd: "quotient_of a = (n, d)"
    by (cases "quotient_of a")
  have d: "0 < d"
    using quotient_of_denom_pos [OF qd] .
  have a: "a = of_int n / of_int d"
    using quotient_of_div [OF qd] .
  have n: "0 < n"
    using assms a d by (simp add: zero_less_divide_iff)
  define bn where "bn = bitLength n"
  define bd where "bd = bitLength d"
  define k where "k = int bn - int bd"
  have nb: "n < 2 ^ bn" "2 ^ bn \<le> 2 * n"
    using bitLength_bounds [OF n] by (simp_all add: bn_def)
  have db: "d < 2 ^ bd" "2 ^ bd \<le> 2 * d"
    using bitLength_bounds [OF d] by (simp_all add: bd_def)
  have nbr: "(of_int n :: rat) < 2 ^ bn" "(2::rat) ^ bn \<le> 2 * of_int n"
  proof -
    have "(of_int n :: rat) < of_int (2 ^ bn)"
      using nb(1) by (simp only: of_int_less_iff)
    then show "(of_int n :: rat) < 2 ^ bn" by simp
    have "(of_int (2 ^ bn) :: rat) \<le> of_int (2 * n)"
      using nb(2) by (simp only: of_int_le_iff)
    then show "(2::rat) ^ bn \<le> 2 * of_int n" by simp
  qed
  have dbr: "(of_int d :: rat) < 2 ^ bd" "(2::rat) ^ bd \<le> 2 * of_int d"
  proof -
    have "(of_int d :: rat) < of_int (2 ^ bd)"
      using db(1) by (simp only: of_int_less_iff)
    then show "(of_int d :: rat) < 2 ^ bd" by simp
    have "(of_int (2 ^ bd) :: rat) \<le> of_int (2 * d)"
      using db(2) by (simp only: of_int_le_iff)
    then show "(2::rat) ^ bd \<le> 2 * of_int d" by simp
  qed
  have dpos: "0 < (of_int d :: rat)"
    using d by simp
  have kbd: "(2::rat) powi k * 2 ^ bd = 2 ^ bn"
  proof -
    have "(2::rat) powi k * 2 powi (int bd) = 2 powi (k + int bd)"
      by (simp add: power_int_add)
    also have "k + int bd = int bn"
      by (simp add: k_def)
    finally show ?thesis by simp
  qed
  have up: "a < 2 powi (k + 1)"
  proof -
    have "of_int n < (2::rat) powi k * 2 ^ bd"
      using nbr(1) kbd by simp
    also have "\<dots> \<le> 2 powi k * (2 * of_int d)"
      using dbr(2) by (simp add: mult_left_mono)
    also have "\<dots> = 2 powi (k + 1) * of_int d"
      by (simp add: power_int_add)
    finally show ?thesis
      using dpos by (simp add: a pos_divide_less_eq)
  qed
  have lo: "2 powi (k - 1) < a"
  proof -
    have "(2::rat) powi (k - 1) * of_int d < 2 powi (k - 1) * 2 ^ bd"
      using dbr(1) by (simp add: mult_strict_left_mono)
    also have "\<dots> = 2 powi k * 2 ^ bd / 2"
      by (simp add: power_int_diff)
    also have "\<dots> = 2 ^ bn / 2"
      by (simp only: kbd)
    also have "\<dots> \<le> of_int n"
      using nbr(2) by simp
    finally show ?thesis
      using dpos by (simp add: a pos_less_divide_eq)
  qed
  have be: "binaryExponent a = (if 2 powi k \<le> a then k else k - 1)"
    by (simp add: binaryExponent_def qd Let_def k_def bn_def bd_def)
  show ?thesis
  proof (cases "2 powi k \<le> a")
    case True
    then show ?thesis
      using up be by simp
  next
    case False
    then have "a < 2 powi k"
      by simp
    then show ?thesis
      using lo be False by simp
  qed
qed

lemma binaryExponent_eq:
  assumes "2 powi e \<le> (a::rat)" "a < 2 powi (e + 1)"
  shows "binaryExponent a = e"
proof -
  have "0 < a"
    using pow2_pos [of e] assms(1) by (rule less_le_trans)
  from binaryExponent_bounds [OF this] show ?thesis
    using binaryExponent_unique [of "binaryExponent a" a e] assms by simp
qed

lemma roundHalfEven_of_int: "roundHalfEven (of_int z) = z"
  by (simp add: roundHalfEven_def)

lemma roundHalfEven_bounds:
  "of_int (roundHalfEven m) \<le> m + 1 / 2 \<and> m - 1 / 2 \<le> of_int (roundHalfEven m)"
proof -
  show ?thesis
    by (auto simp: roundHalfEven_def Let_def; linarith)
qed


lemma of_int_less_pow2: "r < 2 ^ k \<Longrightarrow> (of_int r :: rat) < 2 ^ k"
proof -
  assume "r < 2 ^ k"
  then have "(of_int r :: rat) < of_int (2 ^ k)"
    by (simp only: of_int_less_iff)
  then show ?thesis by simp
qed

lemma of_int_ge_pow2: "2 ^ k \<le> r \<Longrightarrow> (2::rat) ^ k \<le> of_int r"
proof -
  assume "2 ^ k \<le> r"
  then have "(of_int (2 ^ k) :: rat) \<le> of_int r"
    by (simp only: of_int_le_iff)
  then show ?thesis by simp
qed

text \<open>
  A value \<open>r * 2 ^ p\<close> whose significand \<open>r\<close> has at most 53 bits, and exactly 53 unless
  \<open>p\<close> is the least exponent, is a double: the rounding returns it, with either sign.
\<close>

lemma roundToDouble_fixed:
  assumes r: "0 < r" "r < 2 ^ 53" and p: "- 1074 \<le> p"
    and norm: "p = - 1074 \<or> 2 ^ 52 \<le> r"
    and small: "of_int r * 2 powi p < (2::rat) ^ 1024"
  shows "roundToDouble (of_int r * 2 powi p) = Finite (of_int r * 2 powi p)"
    and "roundToDouble (- (of_int r * 2 powi p)) = Finite (- (of_int r * 2 powi p))"
proof -
  define x :: rat where "x = of_int r * 2 powi p"
  have rpos: "0 < (of_int r :: rat)"
    using r(1) by simp
  have xpos: "0 < x"
    using rpos by (simp add: x_def)
  have up: "x < 2 powi (53 + p)"
  proof -
    have "x < 2 ^ 53 * 2 powi p"
      unfolding x_def using of_int_less_pow2 [OF r(2)] by (simp add: mult_strict_right_mono)
    also have "\<dots> = 2 powi (53 + p)"
      by (simp add: power_int_add)
    finally show ?thesis .
  qed
  have P: "max (binaryExponent x - 52) (- 1074) = p"
  proof (cases "2 ^ 52 \<le> r")
    case True
    have "(2::rat) powi (52 + p) = 2 ^ 52 * 2 powi p"
      by (simp add: power_int_add)
    also have "\<dots> \<le> x"
      unfolding x_def using of_int_ge_pow2 [OF True] by (simp add: mult_right_mono)
    finally have lo: "2 powi (52 + p) \<le> x" .
    have "53 + p = (52 + p) + 1"
      by simp
    then have "x < 2 powi ((52 + p) + 1)"
      using up by simp
    from binaryExponent_eq [OF lo this] show ?thesis
      using p by simp
  next
    case False
    then have p': "p = - 1074" and r': "r < 2 ^ 52"
      using norm by simp_all
    have "x < 2 ^ 52 * 2 powi p"
      unfolding x_def using of_int_less_pow2 [OF r'] by (simp add: mult_strict_right_mono)
    also have "\<dots> = 2 powi (52 + p)"
      by (simp add: power_int_add)
    finally have "x < 2 powi (52 + p)" .
    moreover have "2 powi binaryExponent x \<le> x"
      using binaryExponent_bounds [OF xpos] by simp
    ultimately have "(2::rat) powi binaryExponent x < 2 powi (52 + p)"
      by simp
    then have "binaryExponent x < 52 + p"
      by (rule pow2_less_cancel)
    then show ?thesis
      using p' by simp
  qed
  have m: "x / 2 powi p = of_int r"
    by (simp add: x_def)
  have val: "of_int (roundHalfEven (x / 2 powi p)) * 2 powi p = x"
    by (simp only: m roundHalfEven_of_int) (simp add: x_def)
  have nover: "\<not> of_int (2 ^ 1024) \<le> x"
    using small by (simp add: x_def)
  have "roundToDouble x = Finite x"
    using xpos P val nover by (simp add: roundToDouble_def Let_def)
  moreover have "roundToDouble (- x) = Finite (- x)"
    using xpos P val nover by (simp add: roundToDouble_def Let_def)
  ultimately show "roundToDouble (of_int r * 2 powi p) = Finite (of_int r * 2 powi p)"
    and "roundToDouble (- (of_int r * 2 powi p)) = Finite (- (of_int r * 2 powi p))"
    by (simp_all add: x_def)
qed

text \<open>Every finite result of the rounding is such a value, so the rounding is idempotent.\<close>

lemma roundToDouble_idem:
  assumes "roundToDouble q = Finite x"
  shows "roundToDouble x = Finite x"
proof (cases "q = 0")
  case True
  then show ?thesis
    using assms by (auto simp: roundToDouble_def)
next
  case False
  define a where "a = \<bar>q\<bar>"
  define e where "e = binaryExponent a"
  define p where "p = max (e - 52) (- 1074)"
  define m where "m = a / 2 powi p"
  define r where "r = roundHalfEven m"
  define y :: rat where "y = of_int r * 2 powi p"
  have apos: "0 < a"
    using False by (simp add: a_def)
  have unfold: "roundToDouble q =
      (if of_int (2 ^ 1024) \<le> y then (if 0 < q then PosInf else NegInf)
       else Finite (if 0 < q then y else - y))"
    using False by (simp add: roundToDouble_def Let_def a_def e_def p_def m_def r_def y_def)
  have small: "y < 2 ^ 1024" and x: "x = (if 0 < q then y else - y)"
    using assms unfold by (auto split: if_splits)
  have p: "- 1074 \<le> p" "e - 52 \<le> p"
    by (simp_all add: p_def)
  have eb: "2 powi e \<le> a" "a < 2 powi (e + 1)"
    using binaryExponent_bounds [OF apos] by (simp_all add: e_def)
  have mpos: "0 < m"
    using apos by (simp add: m_def)
  have mup: "m < 2 ^ 53"
  proof -
    have "m < 2 powi (e + 1) / 2 powi p"
      using eb(2) by (simp add: m_def divide_strict_right_mono)
    also have "\<dots> = 2 powi (e + 1 - p)"
      by (simp add: power_int_diff)
    also have "\<dots> \<le> 2 powi 53"
      using p(2) by (intro power_int_increasing) simp_all
    finally show ?thesis by simp
  qed
  have rb: "of_int r \<le> m + 1 / 2" "m - 1 / 2 \<le> of_int r"
    using roundHalfEven_bounds [of m] by (simp_all add: r_def)
  have r0: "0 \<le> r"
  proof -
    have "(- 1 :: rat) < of_int r"
      using rb(2) mpos by linarith
    then have "(of_int (- 1) :: rat) < of_int r"
      by simp
    then have "- 1 < r"
      by (simp only: of_int_less_iff)
    then show ?thesis by simp
  qed
  have r53: "r \<le> 2 ^ 53"
  proof -
    have "(of_int r :: rat) < 2 ^ 53 + 1"
      using rb(1) mup by linarith
    then have "(of_int r :: rat) < of_int (2 ^ 53 + 1)"
      by simp
    then have "r < 2 ^ 53 + 1"
      by (simp only: of_int_less_iff)
    then show ?thesis by simp
  qed
  have norm: "p = - 1074 \<or> 2 ^ 52 \<le> r"
  proof (cases "p = - 1074")
    case True
    then show ?thesis ..
  next
    case False
    then have pe: "p = e - 52"
      by (simp add: p_def max_def split: if_splits)
    have "(2::rat) ^ 52 = 2 powi (e - p)"
      by (simp add: pe)
    also have "\<dots> = 2 powi e / 2 powi p"
      by (simp add: power_int_diff)
    also have "\<dots> \<le> m"
      using eb(1) by (simp add: m_def divide_right_mono)
    finally have "(2::rat) ^ 52 \<le> m" .
    then have "(2::rat) ^ 52 - 1 < of_int r"
      using rb(2) by linarith
    then have "(of_int (2 ^ 52 - 1) :: rat) < of_int r"
      by simp
    then have "2 ^ 52 - 1 < r"
      by (simp only: of_int_less_iff)
    then show ?thesis by simp
  qed
  have "roundToDouble y = Finite y \<and> roundToDouble (- y) = Finite (- y)"
  proof (cases "r = 0")
    case True
    then show ?thesis
      by (simp add: y_def roundToDouble_def)
  next
    case False
    then have rpos: "0 < r"
      using r0 by simp
    show ?thesis
    proof (cases "r < 2 ^ 53")
      case True
      show ?thesis
        using roundToDouble_fixed [OF rpos True p(1) norm] small by (simp add: y_def)
    next
      case False
      then have r: "r = 2 ^ 53"
        using r53 by simp
      have y: "y = of_int (2 ^ 52) * 2 powi (p + 1)"
        by (simp add: y_def r power_int_add)
      have "- 1074 \<le> p + 1"
        using p(1) by simp
      moreover have "p + 1 = - 1074 \<or> (2::int) ^ 52 \<le> 2 ^ 52"
        by simp
      moreover have "of_int (2 ^ 52) * 2 powi (p + 1) < (2::rat) ^ 1024"
        using small y by simp
      ultimately show ?thesis
        using roundToDouble_fixed [of "2 ^ 52" "p + 1"] by (simp only: y) simp
    qed
  qed
  then show ?thesis
    by (simp add: x)
qed

text \<open>Rounding never yields \<^verbatim>\<open>NaN\<close>.\<close>

lemma roundToDouble_not_NaN: "roundToDouble q \<noteq> NaN"
  by (simp add: roundToDouble_def Let_def)

subsection \<open>The subtotal\<close>

lemma times_double_commute: "x * y = y * (x::double)"
  by (cases x; cases y) (simp_all add: mult.commute)

lemma roundToDouble_one: "roundToDouble 1 = Finite 1"
  by code_simp

lemma one_minus_zero: "(1::double) - Finite 0 = 1"
  by (simp add: minus_double_def one_double_def roundToDouble_one)

lemma roundToDouble_times_one: "roundToDouble q * 1 = roundToDouble q"
proof (cases "roundToDouble q")
  case (Finite x)
  then show ?thesis
    using roundToDouble_idem [OF Finite] by (simp add: one_double_def)
qed (simp_all add: one_double_def)

lemma not_truthy_roundToDouble:
  "\<not> truthy (roundToDouble d) \<Longrightarrow> roundToDouble d = Finite 0"
  using roundToDouble_not_NaN [of d] by (cases "roundToDouble d") (simp_all add: truthy_def)

text \<open>
  The unit price that the code charges is the discounted unit price of the
  specification: they differ in form only for a discount that is present and zero,
  where \<^verbatim>\<open>price * (1 - 0)\<close> is \<^verbatim>\<open>price\<close>.
\<close>

lemma itemPrice_spec: "itemPrice item = spec_discounted_price item"
proof (cases "discount item")
  case None
  then show ?thesis
    by (simp add: itemPrice_def spec_discounted_price_def)
next
  case (Some d)
  show ?thesis
  proof (cases "truthy (roundToDouble d)")
    case True
    then show ?thesis
      by (simp add: itemPrice_def spec_discounted_price_def Some)
  next
    case False
    then have "roundToDouble d = Finite 0"
      by (rule not_truthy_roundToDouble)
    then show ?thesis
      using False
      by (simp add: itemPrice_def spec_discounted_price_def Some one_minus_zero
          roundToDouble_times_one)
  qed
qed

text \<open>
  Claim C1. For every cart state the subtotal is the sum over the line items, in cart
  order and in the arithmetic of JavaScript numbers, of the quantity times the
  discounted unit price; the code's test for a truthy discount agrees with the
  specification's "discount present", because a discount of zero leaves the price as
  it is. A cart of one line item priced 100 with discount 0.25 and quantity 2 has
  subtotal 150.
\<close>

theorem C1_subtotal_sum:
  "subtotal items
     = sumInOrder
         (map (\<lambda>item. roundToDouble (quantity item) * spec_discounted_price item) items)
   \<and> subtotal [\<lparr>productId = pid, name = nm, price = 100, quantity = 2,
                 imageUrl = img, discount = Some (25 / 100)\<rparr>] = Finite 150"
proof
  have "foldl (\<lambda>sum item. sum + itemPrice item * roundToDouble (quantity item)) a items
        = foldl (+) a
            (map (\<lambda>item. roundToDouble (quantity item) * spec_discounted_price item) items)"
    for a
    by (induction items arbitrary: a) (simp_all add: itemPrice_spec times_double_commute)
  then show "subtotal items
     = sumInOrder
         (map (\<lambda>item. roundToDouble (quantity item) * spec_discounted_price item) items)"
    by (simp add: subtotal_def sumInOrder_def)
next
  have "0 + (roundToDouble 100 * (1 - roundToDouble (25 / 100))) * roundToDouble 2
        = Finite 150"
    by code_simp
  moreover have "truthy (roundToDouble (25 / 100))"
    by code_simp
  ultimately show "subtotal [\<lparr>productId = pid, name = nm, price = 100, quantity = 2,
                   imageUrl = img, discount = Some (25 / 100)\<rparr>] = Finite 150"
    by (simp add: subtotal_def itemPrice_def)
qed

text \<open>
  The rounding shows at a line item priced 100 with discount 0.8 and quantity 5: the
  subtotal is the double below 100, printed \<^verbatim>\<open>99.99999999999999\<close>, so the shipping
  fee is charged and the total is printed \<^verbatim>\<open>124.99999999999999\<close>. The order shows at the
  numbers 0.1, 0.2 and 0.3, whose sum is printed \<^verbatim>\<open>0.6000000000000001\<close> in this order and
  \<^verbatim>\<open>0.6\<close> in the opposite one.
\<close>

lemma subtotal_rounded:
  "subtotal [\<lparr>productId = 1, name = ''Product'', price = 100, quantity = 5,
              imageUrl = None, discount = Some (8 / 10)\<rparr>]
     = Finite (7036874417766399 / 70368744177664)"
  "shipping [\<lparr>productId = 1, name = ''Product'', price = 100, quantity = 5,
              imageUrl = None, discount = Some (8 / 10)\<rparr>] = Finite 25"
  "total_due [\<lparr>productId = 1, name = ''Product'', price = 100, quantity = 5,
              imageUrl = None, discount = Some (8 / 10)\<rparr>]
     = Finite (8796093022207999 / 70368744177664)"
  by code_simp+

lemma sumInOrder_order:
  "sumInOrder [roundToDouble (1 / 10), roundToDouble (2 / 10), roundToDouble (3 / 10)]
     = Finite (1351079888211149 / 2251799813685248)"
  "sumInOrder [roundToDouble (3 / 10), roundToDouble (2 / 10), roundToDouble (1 / 10)]
     = Finite (5404319552844595 / 9007199254740992)"
  by code_simp+

section \<open>Shipping fee and total\<close>

lemma less_double_not_ge: "x < y \<Longrightarrow> \<not> y \<le> (x::double)"
  by (cases x; cases y) simp_all

text \<open>
  Claim C2. For every cart state the shipping fee is 0 when the subtotal is at least 100
  and 25 when it is below 100; the boundary is inclusive, so a subtotal of 99.99 gives
  the fee 25 and a subtotal of 100 gives the fee 0. The total is the subtotal plus the
  shipping fee.
\<close>

theorem C2_shipping_total:
  "(subtotal items \<ge> Finite 100 \<longrightarrow> shipping items = Finite 0)
   \<and> (subtotal items < Finite 100 \<longrightarrow> shipping items = Finite 25)
   \<and> (subtotal items = roundToDouble (9999 / 100) \<longrightarrow> shipping items = Finite 25)
   \<and> (subtotal items = Finite 100 \<longrightarrow> shipping items = Finite 0)
   \<and> total_due items = subtotal items + shipping items"
proof -
  have "\<not> Finite 100 \<le> roundToDouble (9999 / 100)"
    by code_simp
  then show ?thesis
    by (auto simp: shipping_def total_due_def dest: less_double_not_ge)
qed

text \<open>
  The hypotheses of C2 at two carts: one line item of 2 at 50 (subtotal 100, free
  shipping) and one line item of 1 at 99.99 (fee 25).
\<close>

theorem C2_shipping_total_witness:
  "subtotal [\<lparr>productId = 1, name = ''Product'', price = 50, quantity = 2,
              imageUrl = None, discount = None\<rparr>] = Finite 100
   \<and> shipping [\<lparr>productId = 1, name = ''Product'', price = 50, quantity = 2,
              imageUrl = None, discount = None\<rparr>] = Finite 0
   \<and> total_due [\<lparr>productId = 1, name = ''Product'', price = 50, quantity = 2,
              imageUrl = None, discount = None\<rparr>] = Finite 100
   \<and> subtotal [\<lparr>productId = 1, name = ''Product'', price = 9999 / 100, quantity = 1,
              imageUrl = None, discount = None\<rparr>] = roundToDouble (9999 / 100)
   \<and> shipping [\<lparr>productId = 1, name = ''Product'', price = 9999 / 100, quantity = 1,
              imageUrl = None, discount = None\<rparr>] = Finite 25
   \<and> total_due [\<lparr>productId = 1, name = ''Product'', price = 9999 / 100, quantity = 1,
              imageUrl = None, discount = None\<rparr>] = roundToDouble (12499 / 100)"
proof -
  let ?a = "[\<lparr>productId = 1, name = ''Product'', price = 50, quantity = 2,
              imageUrl = None, discount = None\<rparr>]"
  let ?b = "[\<lparr>productId = 1, name = ''Product'', price = 9999 / 100, quantity = 1,
              imageUrl = None, discount = None\<rparr>]"
  have a: "subtotal ?a = Finite 100"
    by code_simp
  have b: "subtotal ?b = roundToDouble (9999 / 100)"
    by code_simp
  have sums: "Finite 100 + Finite 0 = Finite 100"
    "roundToDouble (9999 / 100) + Finite 25 = roundToDouble (12499 / 100)"
    by code_simp+
  show ?thesis
    using C2_shipping_total [of ?a] C2_shipping_total [of ?b] a b sums by simp
qed

section \<open>Setting a quantity\<close>

lemma removeItem_absent:
  "pid \<notin> productId ` set items \<Longrightarrow> removeItem pid items = items"
  by (induction items) (auto simp: removeItem_def)

text \<open>
  Claim C4. For every cart state and product id, \<^verbatim>\<open>updateQuantity\<close> with a quantity
  \<open>\<le> 0\<close> yields the state that \<^verbatim>\<open>removeItem\<close> yields; with a quantity \<open>> 0\<close> it
  keeps the length of the cart, replaces the quantity of each line item with that id
  by the new quantity and leaves every other position as it is; when no line item has
  the id the state is unchanged and no line item is created.
\<close>

theorem C4_updateQuantity:
  "(q \<le> 0 \<longrightarrow> updateQuantity pid q items = removeItem pid items)
   \<and> (0 < q \<longrightarrow>
        length (updateQuantity pid q items) = length items
        \<and> (\<forall>i < length items. productId (items ! i) = pid \<longrightarrow>
              updateQuantity pid q items ! i = (items ! i)\<lparr>quantity := q\<rparr>)
        \<and> (\<forall>i < length items. productId (items ! i) \<noteq> pid \<longrightarrow>
              updateQuantity pid q items ! i = items ! i))
   \<and> (0 < q \<and> pid \<notin> productId ` set items \<longrightarrow> updateQuantity pid q items = items)"
proof (intro conjI impI)
  assume "q \<le> 0"
  then show "updateQuantity pid q items = removeItem pid items"
    by (simp add: updateQuantity_def)
next
  assume "0 < q"
  then show "length (updateQuantity pid q items) = length items"
    by (simp add: updateQuantity_def)
next
  assume "0 < q"
  then show "\<forall>i < length items. productId (items ! i) = pid \<longrightarrow>
              updateQuantity pid q items ! i = (items ! i)\<lparr>quantity := q\<rparr>"
    by (simp add: updateQuantity_def)
next
  assume "0 < q"
  then show "\<forall>i < length items. productId (items ! i) \<noteq> pid \<longrightarrow>
              updateQuantity pid q items ! i = items ! i"
    by (simp add: updateQuantity_def)
next
  assume "0 < q \<and> pid \<notin> productId ` set items"
  then have "0 < q" and "\<forall>item \<in> set items. productId item \<noteq> pid"
    by auto
  then show "updateQuantity pid q items = items"
    by (simp add: updateQuantity_def map_idI)
qed

text \<open>
  The hypotheses of C4 at \<open>cartA\<close>: quantities 0 and -1 remove the line item of
  product 1, quantity 5 replaces its quantity, and an unknown id changes nothing.
\<close>

theorem C4_updateQuantity_witness:
  "updateQuantity 1 0 cartA = removeItem 1 cartA
   \<and> updateQuantity 1 (- 1) cartA = removeItem 1 cartA
   \<and> removeItem 1 cartA = [cartA ! 1]
   \<and> length (updateQuantity 1 5 cartA) = 2
   \<and> updateQuantity 1 5 cartA ! 0 = (cartA ! 0)\<lparr>quantity := 5\<rparr>
   \<and> updateQuantity 1 5 cartA ! 1 = cartA ! 1
   \<and> updateQuantity 3 5 cartA = cartA"
proof -
  have len: "length cartA = 2"
    by (simp add: cartA_def)
  have ids: "productId (cartA ! 0) = 1" "productId (cartA ! 1) \<noteq> 1"
    "3 \<notin> productId ` set cartA"
    by (simp_all add: cartA_def)
  have "updateQuantity 1 0 cartA = removeItem 1 cartA"
    using C4_updateQuantity [of 0 1 cartA] by simp
  moreover have "updateQuantity 1 (- 1) cartA = removeItem 1 cartA"
    using C4_updateQuantity [of "- 1" 1 cartA] by simp
  moreover have "removeItem 1 cartA = [cartA ! 1]"
    by (simp add: removeItem_def cartA_def)
  moreover have "length (updateQuantity 1 5 cartA) = 2"
    "updateQuantity 1 5 cartA ! 0 = (cartA ! 0)\<lparr>quantity := 5\<rparr>"
    "updateQuantity 1 5 cartA ! 1 = cartA ! 1"
    using C4_updateQuantity [of 5 1 cartA] len ids by simp_all
  moreover have "updateQuantity 3 5 cartA = cartA"
    using C4_updateQuantity [of 5 3 cartA] ids by simp
  ultimately show ?thesis by blast
qed

section \<open>Clearing the cart\<close>

text \<open>
  The claim C8 as stated reads \<open>total = 0\<close> after \<^verbatim>\<open>clearCart\<close>. The total of the
  cleared cart is not 0: it is the shipping fee on the zero subtotal.
\<close>

theorem C8_clearCart_counterexample:
  "total_due (clearCart [\<lparr>productId = 1, name = ''Product 1'', price = 50, quantity = 2,
                      imageUrl = None, discount = None\<rparr>]) \<noteq> 0"
  by code_simp

lemma zero_plus_25: "(0::double) + Finite 25 = Finite 25"
  by code_simp

text \<open>
  Claim C8, amended. For every cart state, after \<^verbatim>\<open>clearCart\<close> the collection is
  empty, the total item count is 0, the subtotal is 0, the shipping fee is the flat
  rate 25, and the total is 25 (the subtotal plus the shipping fee), as the test
  "should provide initial empty cart state" expects of the empty cart.
\<close>

theorem C8_clearCart:
  "clearCart items = []
   \<and> totalItems (clearCart items) = 0
   \<and> subtotal (clearCart items) = 0
   \<and> shipping (clearCart items) = Finite 25
   \<and> total_due (clearCart items) = Finite 25"
proof -
  have "\<not> Finite 100 \<le> (0::double)"
    by (simp add: zero_double_def)
  then show ?thesis
    by (simp add: clearCart_def totalItems_def total_due_def subtotal_def shipping_def
        zero_plus_25)
qed

section \<open>Removing a line item\<close>

text \<open>
  Claim C9. For every cart state and product id, \<^verbatim>\<open>removeItem\<close> leaves no line item
  with that id and keeps the line items of every other id as they are; when no line
  item has the id the state is unchanged; removing the same id a second time changes
  nothing. The function is total: no input raises an error.
\<close>

theorem C9_removeItem:
  "lineItemsFor pid (removeItem pid items) = []
   \<and> (k \<noteq> pid \<longrightarrow> lineItemsFor k (removeItem pid items) = lineItemsFor k items)
   \<and> (lineItemsFor pid items = [] \<longrightarrow> removeItem pid items = items)
   \<and> removeItem pid (removeItem pid items) = removeItem pid items"
proof (intro conjI impI)
  show "lineItemsFor pid (removeItem pid items) = []"
    by (induction items) (simp_all add: lineItemsFor_def removeItem_def)
next
  assume "k \<noteq> pid"
  then show "lineItemsFor k (removeItem pid items) = lineItemsFor k items"
    by (induction items) (simp_all add: lineItemsFor_def removeItem_def)
next
  assume "lineItemsFor pid items = []"
  then show "removeItem pid items = items"
    by (induction items) (simp_all add: lineItemsFor_def removeItem_def split: if_splits)
next
  show "removeItem pid (removeItem pid items) = removeItem pid items"
    by (simp add: removeItem_def)
qed

text \<open>
  The hypotheses of C9 at \<open>cartA\<close>: removing product 1 keeps the line item of product
  2, and removing the absent product 3 is a no-op, the first time and the second.
\<close>

theorem C9_removeItem_witness:
  "lineItemsFor 1 (removeItem 1 cartA) = []
   \<and> lineItemsFor 2 (removeItem 1 cartA) = lineItemsFor 2 cartA
   \<and> lineItemsFor 3 cartA = []
   \<and> removeItem 3 cartA = cartA
   \<and> removeItem 3 (removeItem 3 cartA) = cartA"
proof -
  have absent: "lineItemsFor 3 cartA = []"
    by (simp add: lineItemsFor_def cartA_def)
  have "lineItemsFor 1 (removeItem 1 cartA) = []"
    using C9_removeItem [of 1 cartA 2] by blast
  moreover have "lineItemsFor 2 (removeItem 1 cartA) = lineItemsFor 2 cartA"
    using C9_removeItem [of 1 cartA 2] by simp
  moreover have unchanged: "removeItem 3 cartA = cartA"
    using C9_removeItem [of 3 cartA 2] absent by blast
  moreover have "removeItem 3 (removeItem 3 cartA) = cartA"
    using unchanged by simp
  ultimately show ?thesis using absent by blast
qed

section \<open>The frame of a quantity update\<close>

text \<open>
  Claim C10. For every cart state and every new quantity \<open>> 0\<close>, \<^verbatim>\<open>updateQuantity\<close>
  changes only quantity fields of line items with the given id: the cart keeps its
  length and the order of its product ids, the name, price, image and discount of every
  line item are unchanged, the quantity becomes the new quantity exactly at the line
  items with the id, and every line item with a different id is unchanged as a whole.
\<close>

theorem C10_frame:
  "0 < q \<Longrightarrow>
     length (updateQuantity pid q items) = length items
   \<and> map productId (updateQuantity pid q items) = map productId items
   \<and> map name (updateQuantity pid q items) = map name items
   \<and> map price (updateQuantity pid q items) = map price items
   \<and> map imageUrl (updateQuantity pid q items) = map imageUrl items
   \<and> map discount (updateQuantity pid q items) = map discount items
   \<and> map quantity (updateQuantity pid q items)
       = map (\<lambda>item. if productId item = pid then q else quantity item) items
   \<and> (\<forall>i < length items. productId (items ! i) \<noteq> pid \<longrightarrow>
          updateQuantity pid q items ! i = items ! i)"
  by (simp add: updateQuantity_def)

text \<open>The hypothesis of C10 at quantity 5 for product 1 of \<open>cartA\<close>.\<close>

theorem C10_frame_witness:
  "updateQuantity 1 5 cartA
     = [\<lparr>productId = 1, name = ''Product 1'', price = 50, quantity = 5,
             imageUrl = Some ''test.jpg'', discount = None\<rparr>,
            \<lparr>productId = 2, name = ''Product 2'', price = 30, quantity = 1,
             imageUrl = None, discount = Some (25 / 100)\<rparr>]
   \<and> map name (updateQuantity 1 5 cartA) = map name cartA
   \<and> updateQuantity 1 5 cartA ! 1 = cartA ! 1"
proof -
  have q: "(0::rat) < 5" by simp
  have "updateQuantity 1 5 cartA ! 1 = cartA ! 1"
    using C10_frame [OF q, of 1 cartA] by (simp add: cartA_def)
  moreover have "map name (updateQuantity 1 5 cartA) = map name cartA"
    using C10_frame [OF q, of 1 cartA] by blast
  moreover have "updateQuantity 1 5 cartA
     = [\<lparr>productId = 1, name = ''Product 1'', price = 50, quantity = 5,
             imageUrl = Some ''test.jpg'', discount = None\<rparr>,
            \<lparr>productId = 2, name = ''Product 2'', price = 30, quantity = 1,
             imageUrl = None, discount = Some (25 / 100)\<rparr>]"
    by (simp add: updateQuantity_def cartA_def)
  ultimately show ?thesis by blast
qed

section \<open>Adding a product that is already in the cart\<close>

lemma find_None_lineItemsFor:
  "find (\<lambda>item. productId item = pid) items = None \<longleftrightarrow> lineItemsFor pid items = []"
  by (induction items) (simp_all add: lineItemsFor_def)

lemma lineItemsFor_addItem_hit:
  assumes "lineItemsFor (p_productId product) items \<noteq> []"
  shows "lineItemsFor (p_productId product) (addItem product qty items)
         = map (\<lambda>item. item\<lparr>quantity := quantity item + qty\<rparr>)
             (lineItemsFor (p_productId product) items)"
proof -
  have "find (\<lambda>item. productId item = p_productId product) items \<noteq> None"
    using assms by (simp add: find_None_lineItemsFor)
  then obtain e where "find (\<lambda>item. productId item = p_productId product) items = Some e"
    by blast
  then have "addItem product qty items
             = map (\<lambda>item. if productId item = p_productId product
                            then item\<lparr>quantity := quantity item + qty\<rparr> else item) items"
    by (simp add: addItem_def)
  moreover have "lineItemsFor k (map (\<lambda>item. if productId item = k
                            then item\<lparr>quantity := quantity item + qty\<rparr> else item) xs)
        = map (\<lambda>item. item\<lparr>quantity := quantity item + qty\<rparr>) (lineItemsFor k xs)" for k xs
    by (induction xs) (simp_all add: lineItemsFor_def)
  ultimately show ?thesis by simp
qed

lemma lineItemsFor_addItem_miss:
  assumes "lineItemsFor (p_productId product) items = []"
  shows "lineItemsFor (p_productId product) (addItem product qty items)
         = [\<lparr>productId = p_productId product, name = p_name product,
             price = p_price product, quantity = qty,
             imageUrl = p_imgName product, discount = p_discount product\<rparr>]"
proof -
  have "find (\<lambda>item. productId item = p_productId product) items = None"
    using assms by (simp add: find_None_lineItemsFor)
  then have "addItem product qty items
      = items @ [\<lparr>productId = p_productId product, name = p_name product,
             price = p_price product, quantity = qty,
             imageUrl = p_imgName product, discount = p_discount product\<rparr>]"
    by (simp add: addItem_def)
  then show ?thesis
    using assms by (simp add: lineItemsFor_def)
qed

text \<open>
  The claim C3 as stated speaks of every cart state that contains a line item with the
  product id. A restored snapshot is adopted as it is, so a cart state can hold two line
  items with one id (\<open>cartDup\<close>); \<^verbatim>\<open>addItem\<close> then adds the quantity to both and the
  result has two line items for the id, not one.
\<close>

theorem C3_addItem_existing_counterexample:
  "lineItemsFor 1 cartDup \<noteq> []
   \<and> length (lineItemsFor 1 (addItem product1 3 cartDup)) = 2"
  by (simp add: cartDup_def product1_def addItem_def lineItemsFor_def)

text \<open>
  Claim C3, amended. For every cart state with exactly one line item \<open>old\<close> for the
  product id, \<^verbatim>\<open>addItem\<close> with that id (whatever name, price, discount, image and
  quantity it supplies) leaves exactly one line item for the id: \<open>old\<close> with the
  supplied quantity added and every other field as before. Hence, from a cart without
  the id, adding \<open>q1\<close> and then \<open>q2\<close> yields one line item with quantity \<open>q1 + q2\<close>
  whose name, price, image and discount are those of the first add.
\<close>

theorem C3_addItem_existing:
  "(lineItemsFor (p_productId product) items = [old] \<longrightarrow>
      lineItemsFor (p_productId product) (addItem product qty items)
        = [old\<lparr>quantity := quantity old + qty\<rparr>])
   \<and> (lineItemsFor (p_productId first) items = []
        \<and> p_productId second = p_productId first \<longrightarrow>
      lineItemsFor (p_productId first) (addItem second qtyB (addItem first qtyA items))
        = [\<lparr>productId = p_productId first, name = p_name first,
            price = p_price first, quantity = qtyA + qtyB,
            imageUrl = p_imgName first, discount = p_discount first\<rparr>])"
proof (intro conjI impI)
  assume "lineItemsFor (p_productId product) items = [old]"
  then show "lineItemsFor (p_productId product) (addItem product qty items)
        = [old\<lparr>quantity := quantity old + qty\<rparr>]"
    by (simp add: lineItemsFor_addItem_hit)
next
  assume a: "lineItemsFor (p_productId first) items = []
        \<and> p_productId second = p_productId first"
  then have one: "lineItemsFor (p_productId first) (addItem first qtyA items)
         = [\<lparr>productId = p_productId first, name = p_name first,
             price = p_price first, quantity = qtyA,
             imageUrl = p_imgName first, discount = p_discount first\<rparr>]"
    by (simp add: lineItemsFor_addItem_miss)
  have "lineItemsFor (p_productId second) (addItem second qtyB (addItem first qtyA items))
        = map (\<lambda>item. item\<lparr>quantity := quantity item + qtyB\<rparr>)
            (lineItemsFor (p_productId second) (addItem first qtyA items))"
    using a one by (intro lineItemsFor_addItem_hit) simp
  with a one show "lineItemsFor (p_productId first) (addItem second qtyB (addItem first qtyA items))
        = [\<lparr>productId = p_productId first, name = p_name first,
            price = p_price first, quantity = qtyA + qtyB,
            imageUrl = p_imgName first, discount = p_discount first\<rparr>]"
    by simp
qed

text \<open>
  The hypotheses of C3 at \<open>cartA\<close>: a repeat add of product 1 under another name,
  price and discount, and two adds of product 1 to the line item of product 2 alone.
\<close>

theorem C3_addItem_existing_witness:
  "lineItemsFor 1 cartA = [cartA ! 0]
   \<and> lineItemsFor 1 (addItem product1 3 cartA)
       = [\<lparr>productId = 1, name = ''Product 1'', price = 50, quantity = 5,
           imageUrl = Some ''test.jpg'', discount = None\<rparr>]
   \<and> lineItemsFor 1 [cartA ! 1] = []
   \<and> lineItemsFor 1 (addItem product1 3 (addItem (product1\<lparr>p_name := ''First''\<rparr>) 2
         [cartA ! 1]))
       = [\<lparr>productId = 1, name = ''First'', price = 60, quantity = 5,
           imageUrl = None, discount = Some (1 / 2)\<rparr>]"
proof -
  let ?first = "product1\<lparr>p_name := ''First''\<rparr>"
  have id1: "p_productId product1 = 1" "p_productId ?first = 1"
    by (simp_all add: product1_def)
  have one: "lineItemsFor 1 cartA = [cartA ! 0]"
    by (simp add: lineItemsFor_def cartA_def)
  have none: "lineItemsFor 1 [cartA ! 1] = []"
    by (simp add: lineItemsFor_def cartA_def)
  have "lineItemsFor 1 (addItem product1 3 cartA)
        = [(cartA ! 0)\<lparr>quantity := quantity (cartA ! 0) + 3\<rparr>]"
    using C3_addItem_existing [where product = product1 and items = cartA
        and old = "cartA ! 0" and qty = 3] one id1 by simp
  then have hit: "lineItemsFor 1 (addItem product1 3 cartA)
       = [\<lparr>productId = 1, name = ''Product 1'', price = 50, quantity = 5,
           imageUrl = Some ''test.jpg'', discount = None\<rparr>]"
    by (simp add: cartA_def)
  have "lineItemsFor 1 (addItem product1 3 (addItem ?first 2 [cartA ! 1]))
        = [\<lparr>productId = p_productId ?first, name = p_name ?first,
            price = p_price ?first, quantity = 2 + 3,
            imageUrl = p_imgName ?first, discount = p_discount ?first\<rparr>]"
    using C3_addItem_existing [where first = "?first" and second = product1
        and items = "[cartA ! 1]" and qtyA = 2 and qtyB = 3] none id1
    by simp
  then have twice: "lineItemsFor 1 (addItem product1 3 (addItem ?first 2 [cartA ! 1]))
       = [\<lparr>productId = 1, name = ''First'', price = 60, quantity = 5,
           imageUrl = None, discount = Some (1 / 2)\<rparr>]"
    by (simp add: product1_def)
  show ?thesis using one hit none twice by blast
qed

section \<open>Uniqueness of the product id\<close>

lemma uniqueProductIds_addItem:
  "uniqueProductIds items \<Longrightarrow> uniqueProductIds (addItem product qty items)"
proof (cases "find (\<lambda>item. productId item = p_productId product) items")
  case None
  assume u: "uniqueProductIds items"
  from None have "lineItemsFor (p_productId product) items = []"
    by (simp add: find_None_lineItemsFor)
  then have "p_productId product \<notin> productId ` set items"
    by (auto simp: lineItemsFor_def filter_empty_conv)
  with u None show ?thesis
    by (simp add: addItem_def uniqueProductIds_def)
next
  case (Some e)
  assume u: "uniqueProductIds items"
  have "map productId (map (\<lambda>item. if productId item = p_productId product
                       then item\<lparr>quantity := quantity item + qty\<rparr>
                       else item) items) = map productId items"
    by simp
  with u Some show ?thesis
    by (simp add: addItem_def uniqueProductIds_def del: map_map)
qed

lemma uniqueProductIds_removeItem:
  "uniqueProductIds items \<Longrightarrow> uniqueProductIds (removeItem pid items)"
  by (simp add: uniqueProductIds_def removeItem_def distinct_map_filter)

lemma uniqueProductIds_updateQuantity:
  "uniqueProductIds items \<Longrightarrow> uniqueProductIds (updateQuantity pid qty items)"
proof (cases "qty \<le> 0")
  case True
  assume "uniqueProductIds items"
  with True show ?thesis
    by (simp add: updateQuantity_def uniqueProductIds_removeItem)
next
  case False
  assume u: "uniqueProductIds items"
  have "map productId (map (\<lambda>item. if productId item = pid then item\<lparr>quantity := qty\<rparr>
                                    else item) items) = map productId items"
    by simp
  with u False show ?thesis
    by (simp add: updateQuantity_def uniqueProductIds_def del: map_map)
qed

lemma uniqueProductIds_clearCart: "uniqueProductIds (clearCart items)"
  by (simp add: uniqueProductIds_def clearCart_def)

lemma reachable_unique:
  "reachable init items \<Longrightarrow> uniqueProductIds init \<Longrightarrow> uniqueProductIds items"
  by (induction rule: reachable.induct)
     (simp_all add: uniqueProductIds_addItem uniqueProductIds_removeItem
        uniqueProductIds_updateQuantity uniqueProductIds_clearCart)

lemma parse_dup: "JSON_parse dupSnapshot = Inr (cartJSON cartDup)"
  by code_simp

lemma asCartItems_cartDup: "asCartItems (cartJSON cartDup) = Some cartDup"
  by code_simp

text \<open>
  The claim C5 as stated counts initialization among the steps that keep the product id
  unique. The load effect adopts a parsed snapshot as it is: the snapshot
  \<open>dupSnapshot\<close> restores a cart with two line items for product 1.
\<close>

theorem C5_unique_productId_counterexample:
  "restoredCart (storageWith dupSnapshot) = Some cartDup \<and> \<not> uniqueProductIds cartDup"
proof -
  have "dupSnapshot \<noteq> []"
    by (simp add: dupSnapshot_def)
  then have "restoredCart (storageWith dupSnapshot) = Some cartDup"
    by (simp add: restoredCart_def loadCart_def storageWith_def parse_dup asCartItems_cartDup)
  moreover have "\<not> uniqueProductIds cartDup"
    by (simp add: uniqueProductIds_def cartDup_def)
  ultimately show ?thesis by simp
qed

text \<open>
  Claim C5, amended. Every mutation keeps the product id unique: in every cart state
  that \<^verbatim>\<open>addItem\<close>, \<^verbatim>\<open>removeItem\<close>, \<^verbatim>\<open>updateQuantity\<close> and \<^verbatim>\<open>clearCart\<close> reach from
  a starting state with at most one line item per product id, at most one line item
  exists per product id. The starting state is such a state when it is the empty cart,
  which is also what the load effect yields when nothing is persisted.
\<close>

theorem C5_unique_productId:
  "(uniqueProductIds init \<and> reachable init items \<longrightarrow> uniqueProductIds items)
   \<and> (reachable [] items \<longrightarrow> uniqueProductIds items)
   \<and> (ls cartKey = None \<longrightarrow> restoredCart ls = Some [])"
proof (intro conjI impI)
  assume "uniqueProductIds init \<and> reachable init items"
  then show "uniqueProductIds items"
    using reachable_unique by blast
next
  assume "reachable [] items"
  moreover have "uniqueProductIds []"
    by (simp add: uniqueProductIds_def)
  ultimately show "uniqueProductIds items"
    using reachable_unique by blast
next
  assume "ls cartKey = None"
  then show "restoredCart ls = Some []"
    by (simp add: restoredCart_def loadCart_def asCartItems_def)
qed

text \<open>
  The hypotheses of C5 at \<open>cartA\<close>, at the empty cart and at the empty storage: a repeat
  add followed by a quantity update, and an add after clearing.
\<close>

theorem C5_unique_productId_witness:
  "uniqueProductIds cartA
   \<and> reachable cartA (updateQuantity 2 7 (addItem product1 3 cartA))
   \<and> uniqueProductIds (updateQuantity 2 7 (addItem product1 3 cartA))
   \<and> reachable [] (addItem product1 3 (clearCart []))
   \<and> uniqueProductIds (addItem product1 3 (clearCart []))
   \<and> restoredCart Map.empty = Some []"
proof -
  have u: "uniqueProductIds cartA"
    by (simp add: uniqueProductIds_def cartA_def)
  have r: "reachable cartA (updateQuantity 2 7 (addItem product1 3 cartA))"
    by (intro reachable.update reachable.add reachable.initial)
  have e: "reachable [] (addItem product1 3 (clearCart []))"
    by (intro reachable.add reachable.clear reachable.initial)
  have "uniqueProductIds (updateQuantity 2 7 (addItem product1 3 cartA))"
    using C5_unique_productId [where init = cartA
        and items = "updateQuantity 2 7 (addItem product1 3 cartA)"] u r by blast
  moreover have "uniqueProductIds (addItem product1 3 (clearCart []))"
    using C5_unique_productId [where items = "addItem product1 3 (clearCart [])"] e by blast
  moreover have "restoredCart Map.empty = Some []"
    using C5_unique_productId [where ls = Map.empty] by simp
  ultimately show ?thesis using u r e by blast
qed

section \<open>Loading a persisted snapshot\<close>

lemma parse_invalid: "JSON_parse ''invalid-json'' = Inl SyntaxError"
  by code_simp

lemma parse_42: "JSON_parse ''42'' = Inr (JNumber 42)"
  by code_simp

lemma stringify_empty_cart: "JSON_stringify (JArray []) = ''[]''"
  by simp

text \<open>
  The snapshots that the mount discards. With nothing persisted, or with the empty
  string persisted (which is falsy, so it is not parsed), the cart starts empty and no
  error reaches the caller. For every non-empty persisted string that
  \<^verbatim>\<open>JSON.parse\<close> rejects, the error is caught: the cart starts empty, one diagnostic is
  logged, the entry is removed, and no error reaches the caller. In each case the save
  effect then writes the empty cart under the key.
\<close>

lemma mount_missing:
  "ls cartKey = None \<or> ls cartKey = Some [] \<Longrightarrow>
     mount ls = (\<lparr>itemsState = JArray [], storage = saveCart (JArray []) ls,
                  consoleErrors = []\<rparr>, None)"
  by (auto simp: mount_def loadCart_def renderError_def Let_def saveCart_def)

lemma mount_unparsable:
  "ls cartKey = Some s \<Longrightarrow> s \<noteq> [] \<Longrightarrow> JSON_parse s = Inl error \<Longrightarrow>
     mount ls = (\<lparr>itemsState = JArray [],
                  storage = saveCart (JArray []) (ls(cartKey := None)),
                  consoleErrors = [''Error loading cart from localStorage:'']\<rparr>, None)
     \<and> storage (loadCart ls) cartKey = None"
  by (simp add: mount_def loadCart_def renderError_def Let_def saveCart_def)

text \<open>
  The persisted string of the test "should handle invalid localStorage data
  gracefully".
\<close>

lemma mount_invalid_json:
  "itemsState (fst (mount (storageWith ''invalid-json''))) = JArray []
   \<and> storage (loadCart (storageWith ''invalid-json'')) cartKey = None
   \<and> snd (mount (storageWith ''invalid-json'')) = None"
  using mount_unparsable [of "storageWith ''invalid-json''" "''invalid-json''" SyntaxError]
    parse_invalid
  by (simp add: storageWith_def)

text \<open>
  Claim C6 at the persisted string \<^verbatim>\<open>42\<close>, where the program departs from it. The
  string exists and does not deserialize into a list of line items. \<^verbatim>\<open>JSON.parse\<close>
  accepts it, so the \<^verbatim>\<open>catch\<close> block does not run: the load effect makes the number 42
  the state, logs nothing and leaves the entry in place (the save effect of the same
  mount overwrites it with the text of the empty array). The next render calls
  \<^verbatim>\<open>items.reduce\<close> on the number and throws a \<^verbatim>\<open>TypeError\<close>, which reaches the caller.
\<close>

theorem C6_mount_wrong_shape:
  "storageWith ''42'' cartKey = Some ''42''
   \<and> \<not> deserializesToCart ''42''
   \<and> itemsState (loadCart (storageWith ''42'')) = JNumber 42
   \<and> consoleErrors (loadCart (storageWith ''42'')) = []
   \<and> storage (loadCart (storageWith ''42'')) cartKey = Some ''42''
   \<and> itemsState (fst (mount (storageWith ''42''))) = JNumber 42
   \<and> storage (fst (mount (storageWith ''42''))) cartKey = Some ''[]''
   \<and> snd (mount (storageWith ''42'')) = Some TypeError"
  by (simp add: deserializesToCart_def parse_42 mount_def loadCart_def storageWith_def
      asCartItems_def renderError_def saveCart_def Let_def)

section \<open>The round trip through the persisted text\<close>

subsection \<open>The parser reads back the tokens of a value\<close>

lemma run_append: "run s (ts @ us) = (case run s ts of None \<Rightarrow> None | Some s' \<Rightarrow> run s' us)"
  by (induction ts arbitrary: s) (simp_all split: option.splits)

lemma tokens_nonempty: "tokens v \<noteq> []"
  by (cases v) simp_all

lemma startValue_hd_tokens:
  "step (AwaitValueOrClose st) (hd (tokens v)) = step (AwaitValue (ArrayFrame [] # st)) (hd (tokens v))"
  by (cases v) simp_all

lemma run_elements:
  assumes "\<And>v st ts. v \<in> set vs \<Longrightarrow> run (AwaitValue st) (tokens v @ ts) = run (deliver v st) ts"
  shows "run (AfterElement es st) (concat (map (\<lambda>v. Comma # tokens v) vs) @ RBracket # ts)
         = run (deliver (JArray (rev es @ vs)) st) ts"
  using assms
proof (induction vs arbitrary: es)
  case Nil
  then show ?case by simp
next
  case (Cons v vs)
  have "run (AfterElement es st) (concat (map (\<lambda>v. Comma # tokens v) (v # vs)) @ RBracket # ts)
        = run (AwaitValue (ArrayFrame es # st))
            (tokens v @ concat (map (\<lambda>v. Comma # tokens v) vs) @ RBracket # ts)"
    by simp
  also have "\<dots> = run (AfterElement (v # es) st)
                     (concat (map (\<lambda>v. Comma # tokens v) vs) @ RBracket # ts)"
    using Cons.prems [of v] by simp
  also have "\<dots> = run (deliver (JArray (rev (v # es) @ vs)) st) ts"
    using Cons.IH [of "v # es"] Cons.prems by simp
  finally show ?case by simp
qed

lemma joinWith_Cons:
  "joinWith sep (x # xs) = x @ concat (map (\<lambda>y. sep # y) xs)"
  by (induction xs arbitrary: x) simp_all

lemma run_array:
  assumes "\<And>v st ts. v \<in> set vs \<Longrightarrow> run (AwaitValue st) (tokens v @ ts) = run (deliver v st) ts"
  shows "run (AwaitValue st) (tokens (JArray vs) @ ts) = run (deliver (JArray vs) st) ts"
proof (cases vs)
  case Nil
  then show ?thesis by simp
next
  case (Cons v ws)
  obtain t us where tv: "tokens v = t # us"
    using tokens_nonempty [of v] by (cases "tokens v") auto
  have t: "step (AwaitValueOrClose st) t = step (AwaitValue (ArrayFrame [] # st)) t"
    using startValue_hd_tokens [of st v] tv by simp
  have "run (AwaitValue st) (tokens (JArray vs) @ ts)
        = run (AwaitValueOrClose st)
            (tokens v @ concat (map (\<lambda>v. Comma # tokens v) ws) @ RBracket # ts)"
    using Cons by (simp add: joinWith_Cons comp_def)
  also have "\<dots> = run (AwaitValue (ArrayFrame [] # st))
            (tokens v @ concat (map (\<lambda>v. Comma # tokens v) ws) @ RBracket # ts)"
    using t by (simp add: tv)
  also have "\<dots> = run (AfterElement [v] st)
            (concat (map (\<lambda>v. Comma # tokens v) ws) @ RBracket # ts)"
    using assms [of v] Cons by simp
  also have "\<dots> = run (deliver (JArray (rev [v] @ ws)) st) ts"
    using assms Cons by (intro run_elements) simp
  finally show ?thesis using Cons by simp
qed

lemma run_members:
  assumes "\<And>k v st ts. (k, v) \<in> set ms \<Longrightarrow>
             run (AwaitValue st) (tokens v @ ts) = run (deliver v st) ts"
  shows "run (AfterMember acc st)
           (concat (map (\<lambda>m. Comma # (case m of (k, v) \<Rightarrow> Scalar (JString k) # Colon # tokens v)) ms)
            @ RBrace # ts)
         = run (deliver (JObject (rev acc @ ms)) st) ts"
  using assms
proof (induction ms arbitrary: acc)
  case Nil
  then show ?case by simp
next
  case (Cons m ms)
  obtain k v where m: "m = (k, v)" by (cases m)
  have "run (AfterMember acc st)
          (concat (map (\<lambda>m. Comma # (case m of (k, v) \<Rightarrow> Scalar (JString k) # Colon # tokens v)) (m # ms))
            @ RBrace # ts)
        = run (AwaitValue (ObjectFrame acc k # st))
            (tokens v @ concat (map (\<lambda>m. Comma # (case m of (k, v) \<Rightarrow> Scalar (JString k) # Colon # tokens v)) ms)
            @ RBrace # ts)"
    by (simp add: m)
  also have "\<dots> = run (AfterMember ((k, v) # acc) st)
            (concat (map (\<lambda>m. Comma # (case m of (k, v) \<Rightarrow> Scalar (JString k) # Colon # tokens v)) ms)
            @ RBrace # ts)"
    using Cons.prems [of k v] m by simp
  also have "\<dots> = run (deliver (JObject (rev ((k, v) # acc) @ ms)) st) ts"
  proof (rule Cons.IH)
    fix k' v' st' ts'
    assume "(k', v') \<in> set ms"
    then show "run (AwaitValue st') (tokens v' @ ts') = run (deliver v' st') ts'"
      using Cons.prems [of k' v'] by simp
  qed
  finally show ?case by (simp add: m)
qed

lemma run_object:
  assumes "\<And>k v st ts. (k, v) \<in> set ms \<Longrightarrow>
             run (AwaitValue st) (tokens v @ ts) = run (deliver v st) ts"
  shows "run (AwaitValue st) (tokens (JObject ms) @ ts) = run (deliver (JObject ms) st) ts"
proof (cases ms)
  case Nil
  then show ?thesis by simp
next
  case (Cons m ws)
  obtain k v where m: "m = (k, v)" by (cases m)
  have "run (AwaitValue st) (tokens (JObject ms) @ ts)
        = run (AwaitValue (ObjectFrame [] k # st))
            (tokens v @ concat (map (\<lambda>m. Comma # (case m of (k, v) \<Rightarrow> Scalar (JString k) # Colon # tokens v)) ws)
            @ RBrace # ts)"
    using Cons m by (simp add: joinWith_Cons comp_def)
  also have "\<dots> = run (AfterMember [(k, v)] st)
            (concat (map (\<lambda>m. Comma # (case m of (k, v) \<Rightarrow> Scalar (JString k) # Colon # tokens v)) ws)
            @ RBrace # ts)"
    using assms [of k v] Cons m by simp
  also have "\<dots> = run (deliver (JObject (rev [(k, v)] @ ws)) st) ts"
  proof (rule run_members)
    fix k' v' st' ts'
    assume "(k', v') \<in> set ws"
    then show "run (AwaitValue st') (tokens v' @ ts') = run (deliver v' st') ts'"
      using assms [of k' v'] Cons by simp
  qed
  finally show ?thesis using Cons m by simp
qed

lemma run_tokens: "run (AwaitValue st) (tokens v @ ts) = run (deliver v st) ts"
proof (induction v arbitrary: st ts)
  case (JArray vs)
  then show ?case by (intro run_array) simp
next
  case (JObject ms)
  show ?case
  proof (intro run_object)
    fix k v st ts
    assume "(k, v) \<in> set ms"
    then show "run (AwaitValue st) (tokens v @ ts) = run (deliver v st) ts"
      using JObject [of "(k, v)" v] by simp
  qed
qed simp_all

subsection \<open>Digits and numbers\<close>

lemma of_char_digitChar: "d < 10 \<Longrightarrow> of_char (digitChar d) = 48 + d"
  by (simp add: digitChar_def of_char_of [where ?'a = nat])

lemma isDigit_digitChar: "d < 10 \<Longrightarrow> isDigit (digitChar d)"
  by (simp add: isDigit_def of_char_digitChar)

lemma digitVal_digitChar: "d < 10 \<Longrightarrow> digitVal (digitChar d) = d"
  by (simp add: digitVal_def of_char_digitChar)

lemma digitChar_zero: "d < 10 \<Longrightarrow> digitChar d = CHR ''0'' \<longleftrightarrow> d = 0"
proof -
  assume d: "d < 10"
  have "digitChar d = CHR ''0'' \<longleftrightarrow> (of_char (digitChar d) :: nat) = of_char (CHR ''0'')"
    by (simp only: of_char_eq_iff)
  also have "\<dots> \<longleftrightarrow> d = 0"
    using d by (simp add: of_char_digitChar)
  finally show ?thesis .
qed

lemma isDigit_not_minus: "isDigit c \<Longrightarrow> c \<noteq> CHR ''-''"
  by (auto simp: isDigit_def)

lemma natOfDigits_snoc: "natOfDigits (ds @ [c]) = 10 * natOfDigits ds + digitVal c"
  by (simp add: natOfDigits_def)

lemma natOfDigits_Nil: "natOfDigits [] = 0"
  by (simp add: natOfDigits_def)

lemma natOfDigits_append:
  "natOfDigits (ds @ es) = natOfDigits ds * 10 ^ length es + natOfDigits es"
proof (induction es rule: rev_induct)
  case Nil
  then show ?case by (simp add: natOfDigits_Nil)
next
  case (snoc c es)
  have "natOfDigits (ds @ es @ [c]) = 10 * natOfDigits (ds @ es) + digitVal c"
    using natOfDigits_snoc [of "ds @ es" c] by simp
  with snoc show ?case
    by (simp add: natOfDigits_snoc algebra_simps)
qed

lemma natOfDigits_Cons:
  "natOfDigits (c # cs) = digitVal c * 10 ^ length cs + natOfDigits cs"
  using natOfDigits_append [of "[c]" cs] natOfDigits_snoc [of "[]" c]
  by (simp add: natOfDigits_Nil)

lemma natDigits_digits: "c \<in> set (natDigits n) \<Longrightarrow> isDigit c"
proof (induction n arbitrary: c rule: natDigits.induct)
  case (1 n)
  show ?case
  proof (cases "n < 10")
    case True
    then have "natDigits n = [digitChar n]"
      by (subst natDigits.simps) simp
    with "1.prems" True show ?thesis
      by (simp add: isDigit_digitChar)
  next
    case False
    have "c \<in> set (natDigits (n div 10)) \<or> c = digitChar (n mod 10)"
      using "1.prems" False by (subst (asm) natDigits.simps) auto
    then show ?thesis
      using "1.IH" False by (auto simp: isDigit_digitChar)
  qed
qed

lemma natDigits_nonempty: "natDigits n \<noteq> []"
  by (subst natDigits.simps) simp

lemma natOfDigits_natDigits: "natOfDigits (natDigits n) = n"
proof (induction n rule: natDigits.induct)
  case (1 n)
  show ?case
  proof (cases "n < 10")
    case True
    then show ?thesis
      by (subst natDigits.simps) (simp add: natOfDigits_Cons natOfDigits_Nil digitVal_digitChar)
  next
    case False
    then have "natOfDigits (natDigits n) = 10 * natOfDigits (natDigits (n div 10))
                                          + digitVal (digitChar (n mod 10))"
      by (subst natDigits.simps) (simp add: natOfDigits_snoc)
    with "1.IH" False show ?thesis
      by (simp add: digitVal_digitChar)
  qed
qed

lemma natDigits_leading:
  "hd (natDigits n) = CHR ''0'' \<Longrightarrow> length (natDigits n) = 1"
proof (induction n rule: natDigits.induct)
  case (1 n)
  show ?case
  proof (cases "n < 10")
    case True
    then show ?thesis by (subst natDigits.simps) simp
  next
    case False
    have nd: "natDigits n = natDigits (n div 10) @ [digitChar (n mod 10)]"
      using False by (subst natDigits.simps) simp
    then have "hd (natDigits (n div 10)) = CHR ''0''"
      using "1.prems" natDigits_nonempty [of "n div 10"] by simp
    then have "length (natDigits (n div 10)) = 1"
      using "1.IH" False by simp
    then obtain c where c: "natDigits (n div 10) = [c]"
      by (cases "natDigits (n div 10)") auto
    with \<open>hd (natDigits (n div 10)) = CHR ''0''\<close> have "natDigits (n div 10) = ''0''"
      by simp
    then have "natOfDigits (natDigits (n div 10)) = 0"
      by (simp add: natOfDigits_def digitVal_def)
    then have "n div 10 = 0"
      by (simp only: natOfDigits_natDigits)
    with False show ?thesis by simp
  qed
qed

lemma takeWhile_digits:
  assumes "\<And>c. c \<in> set ds \<Longrightarrow> isDigit c" and "numberEnds rest \<or> (rest \<noteq> [] \<and> \<not> isDigit (hd rest))"
  shows "takeWhile isDigit (ds @ rest) = ds" and "dropWhile isDigit (ds @ rest) = rest"
proof -
  have r: "takeWhile isDigit rest = []" "dropWhile isDigit rest = rest"
    using assms(2) by (cases rest; auto simp: numberEnds_def)+
  show "takeWhile isDigit (ds @ rest) = ds"
    using assms(1) r by (simp add: takeWhile_append2)
  show "dropWhile isDigit (ds @ rest) = rest"
    using assms(1) r by (simp add: dropWhile_append2)
qed

lemma unit_interval_Ints: "(f::rat) \<in> \<int> \<Longrightarrow> 0 \<le> f \<Longrightarrow> f < 1 \<Longrightarrow> f = 0"
proof -
  assume "f \<in> \<int>" and "0 \<le> f" and "f < 1"
  then obtain z :: int where z: "f = of_int z" by (auto elim: Ints_cases)
  with \<open>0 \<le> f\<close> \<open>f < 1\<close> have "0 \<le> z" "z < 1" by simp_all
  then have "z = 0" by simp
  with z show ?thesis by simp
qed

lemma fracDigits_value:
  assumes "0 \<le> f" and "f < 1" and "f * 10 ^ n \<in> \<int>"
  shows "(\<forall>c \<in> set (fracDigits n f). isDigit c)
         \<and> of_nat (natOfDigits (fracDigits n f)) / 10 ^ length (fracDigits n f) = f"
  using assms
proof (induction n arbitrary: f)
  case 0
  then have "f = 0" by (simp add: unit_interval_Ints)
  then show ?case by (simp add: natOfDigits_Nil)
next
  case (Suc n)
  show ?case
  proof (cases "f = 0")
    case True
    then show ?thesis by (simp add: natOfDigits_Nil)
  next
    case False
    define z where "z = \<lfloor>10 * f\<rfloor>"
    define d where "d = nat z"
    define g where "g = 10 * f - of_int z"
    have z0: "0 \<le> z" using Suc.prems(1) by (simp add: z_def)
    have "10 * f < 10" using Suc.prems(2) by simp
    then have z10: "z < 10" by (simp add: z_def floor_less_iff)
    have d10: "d < 10" using z0 z10 by (simp add: d_def)
    have dz: "(of_nat d :: rat) = of_int z" using z0 by (simp add: d_def)
    have g0: "0 \<le> g" by (simp add: g_def z_def)
    have g1: "g < 1" unfolding g_def z_def by linarith
    have "g * 10 ^ n = f * 10 ^ Suc n - of_int z * 10 ^ n"
      by (simp add: g_def algebra_simps)
    moreover have "of_int z * (10::rat) ^ n \<in> \<int>"
      by (metis Ints_of_int of_int_numeral of_int_power of_int_mult)
    ultimately have gi: "g * 10 ^ n \<in> \<int>"
      using Suc.prems(3) by (simp add: Ints_diff)
    have fd: "fracDigits (Suc n) f = digitChar d # fracDigits n g"
      using False by (simp add: d_def g_def z_def)
    have IH: "(\<forall>c \<in> set (fracDigits n g). isDigit c)"
      "of_nat (natOfDigits (fracDigits n g)) / 10 ^ length (fracDigits n g) = g"
      using Suc.IH [OF g0 g1 gi] by simp_all
    have "of_nat (natOfDigits (fracDigits (Suc n) f)) / 10 ^ length (fracDigits (Suc n) f)
          = ((of_nat d :: rat) * 10 ^ length (fracDigits n g)
               + of_nat (natOfDigits (fracDigits n g)))
            / (10 * 10 ^ length (fracDigits n g))"
      unfolding fd by (simp add: natOfDigits_Cons digitVal_digitChar d10)
    also have "\<dots> = (of_nat d + of_nat (natOfDigits (fracDigits n g))
                              / 10 ^ length (fracDigits n g)) / 10"
      by (simp add: field_simps)
    also have "\<dots> = (of_int z + g) / 10"
      by (simp add: IH(2) dz)
    also have "\<dots> = f"
      by (simp add: g_def)
    finally have v: "of_nat (natOfDigits (fracDigits (Suc n) f))
                       / 10 ^ length (fracDigits (Suc n) f) = f" .
    have "\<forall>c \<in> set (fracDigits (Suc n) f). isDigit c"
      unfolding fd using IH(1) by (simp add: isDigit_digitChar d10)
    with v show ?thesis by blast
  qed
qed

lemma fracDigits_nonempty: "f \<noteq> 0 \<Longrightarrow> 0 < n \<Longrightarrow> fracDigits n f \<noteq> []"
  by (cases n) simp_all

lemma denominator_pos: "0 < denominator x"
  using quotient_of_denom_pos' [of x] by (simp add: denominator_def)

lemma isDecimal_Ints:
  assumes "isDecimal x"
  shows "x * 10 ^ denominator x \<in> \<int>"
proof -
  obtain a b where q: "quotient_of x = (a, b)" by (cases "quotient_of x")
  then have b: "0 < b" and x: "x = of_int a / of_int b"
    by (simp_all add: quotient_of_denom_pos quotient_of_div)
  from assms q obtain c where c: "(10::int) ^ denominator x = b * c"
    by (auto simp: isDecimal_def dvd_def)
  have "(10::rat) ^ denominator x = of_int ((10::int) ^ denominator x)"
    by simp
  also have "\<dots> = of_int b * of_int c"
    by (simp add: c)
  finally have "x * 10 ^ denominator x = of_int a * of_int c"
    using b by (simp add: x)
  also have "\<dots> \<in> \<int>"
    by (metis Ints_of_int of_int_mult)
  finally show ?thesis .
qed

lemma frac_decimal_Ints:
  assumes "isDecimal x"
  shows "frac x * 10 ^ denominator x \<in> \<int>"
proof -
  have "frac x * 10 ^ denominator x
        = x * 10 ^ denominator x - of_int \<lfloor>x\<rfloor> * 10 ^ denominator x"
    by (simp add: frac_def algebra_simps)
  moreover have "of_int \<lfloor>x\<rfloor> * (10::rat) ^ denominator x \<in> \<int>"
    by (metis Ints_of_int of_int_numeral of_int_power of_int_mult)
  ultimately show ?thesis
    using isDecimal_Ints [OF assms] by (simp add: Ints_diff)
qed

lemma isDecimal_uminus: "isDecimal (- x) = isDecimal x"
  by (cases "quotient_of x") (simp add: isDecimal_def denominator_def rat_uminus_code)

lemma lexFraction_none: "numberEnds rest \<Longrightarrow> lexFraction rest = Some ([], rest)"
  by (cases rest) (simp_all add: lexFraction_def numberEnds_def)

lemma lexExponent_none: "numberEnds rest \<Longrightarrow> lexExponent rest = Some (0, rest)"
  by (cases rest) (simp_all add: lexExponent_def numberEnds_def)

lemma lexNumber_positionalText:
  assumes "0 \<le> x" and "isDecimal x" and "numberEnds rest"
  shows "lexNumber (positionalText x @ rest) = Some (x, rest)"
proof -
  define I where "I = natDigits (nat \<lfloor>x\<rfloor>)"
  define F where "F = fracDigits (denominator x) (frac x)"
  define tail where "tail = (if frac x = 0 then [] else CHR ''.'' # F) @ rest"
  have shape: "positionalText x @ rest = I @ tail"
    by (simp add: positionalText_def I_def F_def tail_def)
  have Idig: "\<And>c. c \<in> set I \<Longrightarrow> isDigit c"
    by (simp add: I_def natDigits_digits)
  have Ine: "I \<noteq> []"
    by (simp add: I_def natDigits_nonempty)
  have Ival: "(of_nat (natOfDigits I) :: rat) = of_int \<lfloor>x\<rfloor>"
    using assms(1) by (simp add: I_def natOfDigits_natDigits)
  have lead: "\<not> (1 < length I \<and> hd I = CHR ''0'')"
    using natDigits_leading [of "nat \<lfloor>x\<rfloor>"] by (auto simp: I_def)
  have hdI: "hd (I @ tail) \<noteq> CHR ''-''"
    using Ine Idig [of "hd I"] by (cases I) (auto dest: isDigit_not_minus)
  have tail_stop: "numberEnds tail \<or> (tail \<noteq> [] \<and> \<not> isDigit (hd tail))"
    using assms(3) by (auto simp: tail_def isDigit_def)
  have tw: "takeWhile isDigit (I @ tail) = I" and dw: "dropWhile isDigit (I @ tail) = tail"
    using takeWhile_digits [of I tail] Idig tail_stop by blast+
  have Fprops: "(\<forall>c \<in> set F. isDigit c) \<and> of_nat (natOfDigits F) / 10 ^ length F = frac x"
    unfolding F_def
    by (intro fracDigits_value frac_decimal_Ints assms(2)) (simp_all add: frac_lt_1)
  have frac_tail: "lexFraction tail = Some (if frac x = 0 then [] else F, rest)"
  proof (cases "frac x = 0")
    case True
    then show ?thesis
      using assms(3) by (simp add: tail_def lexFraction_none)
  next
    case False
    then have "F \<noteq> []"
      by (simp add: F_def fracDigits_nonempty denominator_pos)
    moreover have "takeWhile isDigit (F @ rest) = F" "dropWhile isDigit (F @ rest) = rest"
      using takeWhile_digits [of F rest] Fprops assms(3) by blast+
    ultimately show ?thesis
      using False by (simp add: tail_def lexFraction_def)
  qed
  have val: "of_nat (natOfDigits I)
             + of_nat (natOfDigits (if frac x = 0 then [] else F))
               / 10 ^ length (if frac x = 0 then [] else F) = x"
  proof (cases "frac x = 0")
    case True
    then show ?thesis
      by (simp add: Ival natOfDigits_Nil frac_def)
  next
    case False
    then show ?thesis
      using Fprops by (simp add: Ival frac_def)
  qed
  show ?thesis
    unfolding shape
    using Ine hdI tw dw lead frac_tail val lexExponent_none [OF assms(3)]
    by (simp add: lexNumber_def Let_def scale10_def)
qed

lemma positionalText_hd: "isDigit (hd (positionalText x @ rest))"
proof -
  have "natDigits (nat \<lfloor>x\<rfloor>) \<noteq> []" by (simp add: natDigits_nonempty)
  then obtain c cs where c: "natDigits (nat \<lfloor>x\<rfloor>) = c # cs"
    by (cases "natDigits (nat \<lfloor>x\<rfloor>)") auto
  then have "isDigit c"
    using natDigits_digits [of c "nat \<lfloor>x\<rfloor>"] by simp
  with c show ?thesis by (simp add: positionalText_def)
qed

lemma positionalText_digits:
  assumes "0 \<le> x" and "isDecimal x"
  shows "(\<forall>c \<in> set (natDigits (nat \<lfloor>x\<rfloor>) @ fracDigits (denominator x) (frac x)). isDigit c)
         \<and> of_nat (natOfDigits (natDigits (nat \<lfloor>x\<rfloor>) @ fracDigits (denominator x) (frac x)))
             / 10 ^ length (fracDigits (denominator x) (frac x)) = x"
proof -
  define I where "I = natDigits (nat \<lfloor>x\<rfloor>)"
  define F where "F = fracDigits (denominator x) (frac x)"
  have Fprops: "(\<forall>c \<in> set F. isDigit c) \<and> of_nat (natOfDigits F) / 10 ^ length F = frac x"
    unfolding F_def
    by (intro fracDigits_value frac_decimal_Ints assms(2)) (simp_all add: frac_lt_1)
  have Ival: "(of_nat (natOfDigits I) :: rat) = of_int \<lfloor>x\<rfloor>"
    using assms(1) by (simp add: I_def natOfDigits_natDigits)
  have "(of_nat (natOfDigits (I @ F)) :: rat) / 10 ^ length F
        = of_nat (natOfDigits I) + of_nat (natOfDigits F) / 10 ^ length F"
    by (simp add: natOfDigits_append field_simps)
  also have "\<dots> = x"
    using Fprops by (simp add: Ival frac_def)
  finally have "of_nat (natOfDigits (I @ F)) / 10 ^ length F = x" .
  moreover have "\<forall>c \<in> set (I @ F). isDigit c"
    using Fprops by (auto simp: I_def natDigits_digits)
  ultimately show ?thesis
    by (simp add: I_def F_def)
qed

lemma natDigits_hd_nonzero:
  assumes "0 < n"
  shows "hd (natDigits n) \<noteq> CHR ''0''"
proof
  assume z: "hd (natDigits n) = CHR ''0''"
  then have "length (natDigits n) = 1"
    by (rule natDigits_leading)
  then obtain c where "natDigits n = [c]"
    by (cases "natDigits n") auto
  with z have "natDigits n = ''0''" by simp
  then have "natOfDigits (natDigits n) = 0"
    by (simp add: natOfDigits_def digitVal_def)
  then have "n = 0"
    by (simp only: natOfDigits_natDigits)
  with assms show False by simp
qed

lemma natOfDigits_zeros: "natOfDigits (replicate t (CHR ''0'')) = 0"
  by (induction t) (simp_all add: natOfDigits_Nil natOfDigits_Cons digitVal_def)

lemma leading_zeros:
  "ds = replicate (length (takeWhile (\<lambda>c. c = CHR ''0'') ds)) (CHR ''0'')
        @ dropWhile (\<lambda>c. c = CHR ''0'') ds"
  by (induction ds) simp_all

lemma trailing_zeros:
  "ds = stripTrailingZeros ds
        @ replicate (length ds - length (stripTrailingZeros ds)) (CHR ''0'')"
proof -
  define z where "z = length (takeWhile (\<lambda>c. c = CHR ''0'') (rev ds))"
  have r: "rev ds = replicate z (CHR ''0'') @ dropWhile (\<lambda>c. c = CHR ''0'') (rev ds)"
    unfolding z_def by (rule leading_zeros)
  have "ds = rev (rev ds)" by simp
  also have "\<dots> = stripTrailingZeros ds @ replicate z (CHR ''0'')"
    by (subst r) (simp add: stripTrailingZeros_def)
  finally have d: "ds = stripTrailingZeros ds @ replicate z (CHR ''0'')" .
  then have "length ds = length (stripTrailingZeros ds) + z"
    by (metis length_append length_replicate)
  then have "z = length ds - length (stripTrailingZeros ds)" by simp
  with d show ?thesis by simp
qed

lemma set_stripTrailingZeros: "c \<in> set (stripTrailingZeros ds) \<Longrightarrow> c \<in> set ds"
  by (auto simp: stripTrailingZeros_def dest: set_dropWhileD)

lemma scale10_nonneg: "scale10 m (int n) = m * 10 ^ n"
  by (simp add: scale10_def)

lemma scale10_neg: "scale10 m (- int n - 1) = m / 10 ^ Suc n"
  by (simp add: scale10_def nat_add_distrib)

lemma significand_large:
  assumes "1 \<le> x" and "isDecimal x"
  shows "significand x \<noteq> []"
    and "\<And>c. c \<in> set (significand x) \<Longrightarrow> isDigit c"
    and "scale10 (of_nat (natOfDigits (significand x)) / 10 ^ (length (significand x) - 1))
           (decimalExponent x) = x"
proof -
  define I where "I = natDigits (nat \<lfloor>x\<rfloor>)"
  define F where "F = fracDigits (denominator x) (frac x)"
  define s where "s = stripTrailingZeros (I @ F)"
  define t where "t = length (I @ F) - length s"
  have sig: "significand x = s"
    using assms(1) by (simp add: significand_def s_def I_def F_def)
  have ex: "decimalExponent x = int (length I - 1)"
    using assms(1) natDigits_nonempty [of "nat \<lfloor>x\<rfloor>"]
    by (cases "natDigits (nat \<lfloor>x\<rfloor>)") (simp_all add: decimalExponent_def I_def)
  have x0: "0 \<le> x" using assms(1) by simp
  have dig: "\<forall>c \<in> set (I @ F). isDigit c"
    and val: "of_nat (natOfDigits (I @ F)) / 10 ^ length F = x"
    using positionalText_digits [OF x0 assms(2)] by (simp_all add: I_def F_def)
  have D: "I @ F = s @ replicate t (CHR ''0'')"
    unfolding s_def t_def by (rule trailing_zeros)
  have "0 < nat \<lfloor>x\<rfloor>" using assms(1) by simp
  then have hdI: "hd I \<noteq> CHR ''0''"
    unfolding I_def by (rule natDigits_hd_nonzero)
  have Ine: "I \<noteq> []" by (simp add: I_def natDigits_nonempty)
  show ne: "significand x \<noteq> []"
  proof
    assume "significand x = []"
    then have "I @ F = replicate t (CHR ''0'')" using D sig by simp
    then have "hd (I @ F) = CHR ''0''"
      using Ine by (cases t) auto
    with hdI Ine show False by simp
  qed
  show "\<And>c. c \<in> set (significand x) \<Longrightarrow> isDigit c"
    using dig by (auto simp: sig s_def dest: set_stripTrailingZeros)
  have len: "length s + t = length I + length F"
    using D by (metis length_append length_replicate)
  have s1: "1 \<le> length s" using ne sig by (cases s) auto
  have I1: "1 \<le> length I" using Ine by (cases I) auto
  have "natOfDigits (I @ F) = natOfDigits s * 10 ^ t"
    by (simp add: D natOfDigits_append natOfDigits_zeros)
  then have x: "x = of_nat (natOfDigits s) * 10 ^ t / 10 ^ length F"
    using val by simp
  have "(length s - 1) + t = (length I - 1) + length F"
    using len s1 I1 by simp
  then have "(10::rat) ^ (length s - 1) * 10 ^ t = 10 ^ (length I - 1) * 10 ^ length F"
    by (metis power_add)
  then have "of_nat (natOfDigits s) / 10 ^ (length s - 1) * 10 ^ (length I - 1)
             = of_nat (natOfDigits s) * 10 ^ t / (10::rat) ^ length F"
    by (simp add: field_simps)
  then show "scale10 (of_nat (natOfDigits (significand x)) / 10 ^ (length (significand x) - 1))
           (decimalExponent x) = x"
    by (simp only: sig ex scale10_nonneg x [symmetric])
qed

lemma significand_small:
  assumes "0 < x" and "x < 1" and "isDecimal x"
  shows "significand x \<noteq> []"
    and "\<And>c. c \<in> set (significand x) \<Longrightarrow> isDigit c"
    and "scale10 (of_nat (natOfDigits (significand x)) / 10 ^ (length (significand x) - 1))
           (decimalExponent x) = x"
proof -
  define F where "F = fracDigits (denominator x) (frac x)"
  define z where "z = length (takeWhile (\<lambda>c. c = CHR ''0'') F)"
  define s where "s = dropWhile (\<lambda>c. c = CHR ''0'') F"
  have sig: "significand x = s"
    using assms(2) by (simp add: significand_def s_def F_def)
  have ex: "decimalExponent x = - int z - 1"
    using assms(2) by (simp add: decimalExponent_def z_def F_def)
  have fx: "frac x = x"
    using assms(1,2) by (simp add: frac_eq)
  have Fprops: "(\<forall>c \<in> set F. isDigit c) \<and> of_nat (natOfDigits F) / 10 ^ length F = frac x"
    unfolding F_def
    by (intro fracDigits_value frac_decimal_Ints assms(3)) (simp_all add: frac_lt_1)
  have F: "F = replicate z (CHR ''0'') @ s"
    unfolding z_def s_def by (rule leading_zeros)
  have vF: "natOfDigits F = natOfDigits s"
    by (subst F) (simp add: natOfDigits_append natOfDigits_zeros)
  have lF: "length F = z + length s"
    by (subst F) simp
  show ne: "significand x \<noteq> []"
  proof
    assume "significand x = []"
    then have "natOfDigits F = 0" using vF sig by (simp add: natOfDigits_Nil)
    then have "x = 0" using Fprops fx by simp
    with assms(1) show False by simp
  qed
  show "\<And>c. c \<in> set (significand x) \<Longrightarrow> isDigit c"
    using Fprops by (auto simp: sig s_def dest: set_dropWhileD)
  have s1: "1 \<le> length s" using ne sig by (cases s) auto
  have x: "x = of_nat (natOfDigits s) / 10 ^ (z + length s)"
    using Fprops fx vF lF by simp
  have "(length s - 1) + Suc z = z + length s"
    using s1 by simp
  then have "(10::rat) ^ (length s - 1) * 10 ^ Suc z = 10 ^ (z + length s)"
    by (metis power_add)
  then have "of_nat (natOfDigits s) / 10 ^ (length s - 1) / 10 ^ Suc z
             = of_nat (natOfDigits s) / (10::rat) ^ (z + length s)"
    by (simp add: field_simps)
  then show "scale10 (of_nat (natOfDigits (significand x)) / 10 ^ (length (significand x) - 1))
           (decimalExponent x) = x"
    by (simp only: sig ex scale10_neg x [symmetric])
qed

lemma lexExponentDigits_natDigits:
  assumes "numberEnds rest"
  shows "lexExponentDigits neg (natDigits n @ rest)
         = Some (if neg then - int n else int n, rest)"
proof -
  have "takeWhile isDigit (natDigits n @ rest) = natDigits n"
    "dropWhile isDigit (natDigits n @ rest) = rest"
    using takeWhile_digits [of "natDigits n" rest] assms natDigits_digits by blast+
  then show ?thesis
    by (simp add: lexExponentDigits_def natDigits_nonempty natOfDigits_natDigits)
qed

lemma lexExponent_text:
  assumes "numberEnds rest"
  shows "lexExponent (CHR ''e'' # (if 0 \<le> e then CHR ''+'' else CHR ''-'')
                        # natDigits (nat \<bar>e\<bar>) @ rest) = Some (e, rest)"
  using lexExponentDigits_natDigits [OF assms]
  by (simp add: lexExponent_def)

lemma lexNumber_scientific:
  assumes "s \<noteq> []" and "\<And>c. c \<in> set s \<Longrightarrow> isDigit c" and "numberEnds rest"
  shows "lexNumber (scientificText s e @ rest)
         = Some (scale10 (of_nat (natOfDigits s) / 10 ^ (length s - 1)) e, rest)"
proof -
  obtain d ds where s: "s = d # ds"
    using assms(1) by (cases s) auto
  define ex where
    "ex = CHR ''e'' # (if 0 \<le> e then CHR ''+'' else CHR ''-'') # natDigits (nat \<bar>e\<bar>) @ rest"
  define tail where "tail = (if ds = [] then [] else CHR ''.'' # ds) @ ex"
  have shape: "scientificText s e @ rest = d # tail"
    by (simp add: scientificText_def s tail_def ex_def)
  have d: "isDigit d" and dsd: "\<And>c. c \<in> set ds \<Longrightarrow> isDigit c"
    using assms(2) s by simp_all
  have dm: "d \<noteq> CHR ''-''"
    using d by (rule isDigit_not_minus)
  have ex_stop: "ex \<noteq> [] \<and> \<not> isDigit (hd ex)"
    by (simp add: ex_def isDigit_def)
  have tail_stop: "tail \<noteq> [] \<and> \<not> isDigit (hd tail)"
    using ex_stop by (simp add: tail_def isDigit_def)
  have tw: "takeWhile isDigit (d # tail) = [d]" and dw: "dropWhile isDigit (d # tail) = tail"
    using takeWhile_digits [of "[d]" tail] d tail_stop by simp_all
  have fr: "lexFraction tail = Some (ds, ex)"
  proof (cases "ds = []")
    case True
    then show ?thesis
      by (simp add: tail_def ex_def lexFraction_def)
  next
    case False
    moreover have "takeWhile isDigit (ds @ ex) = ds" "dropWhile isDigit (ds @ ex) = ex"
      using takeWhile_digits [of ds ex] dsd ex_stop by blast+
    ultimately show ?thesis
      by (simp add: tail_def lexFraction_def)
  qed
  have exl: "lexExponent ex = Some (e, rest)"
    unfolding ex_def using assms(3) by (rule lexExponent_text)
  have "(of_nat (natOfDigits [d]) :: rat) + of_nat (natOfDigits ds) / 10 ^ length ds
        = of_nat (natOfDigits s) / 10 ^ (length s - 1)"
    by (simp add: s natOfDigits_Cons natOfDigits_Nil field_simps)
  then show ?thesis
    unfolding shape using dm tw dw fr exl
    by (simp add: lexNumber_def Let_def)
qed

lemma scientificText_hd: "s \<noteq> [] \<Longrightarrow> hd (scientificText s e @ rest) = hd s"
  by (cases s) (simp_all add: scientificText_def)

lemma significand_props:
  assumes "0 < x" and "isDecimal x"
  shows "significand x \<noteq> []"
    and "\<And>c. c \<in> set (significand x) \<Longrightarrow> isDigit c"
    and "scale10 (of_nat (natOfDigits (significand x)) / 10 ^ (length (significand x) - 1))
           (decimalExponent x) = x"
  using assms significand_large [of x] significand_small [of x]
  by (cases "1 \<le> x"; force)+

lemma lexNumber_unsignedText:
  assumes "0 \<le> x" and "isDecimal x" and "numberEnds rest"
  shows "lexNumber (unsignedText x @ rest) = Some (x, rest)"
proof (cases "scientificRange x")
  case False
  then have "unsignedText x = positionalText x"
    by (simp add: unsignedText_def)
  then show ?thesis
    using assms by (simp add: lexNumber_positionalText)
next
  case True
  then have pos: "0 < x" using assms(1) by (simp add: scientificRange_def)
  from True have u: "unsignedText x = scientificText (significand x) (decimalExponent x)"
    by (simp add: unsignedText_def)
  show ?thesis
    unfolding u
    using lexNumber_scientific [OF significand_props(1,2) [OF pos assms(2)] assms(3)]
      significand_props(3) [OF pos assms(2)]
    by simp
qed

lemma unsignedText_hd:
  assumes "0 \<le> x" and "isDecimal x"
  shows "isDigit (hd (unsignedText x @ rest))"
proof (cases "scientificRange x")
  case False
  then show ?thesis
    by (simp add: unsignedText_def positionalText_hd)
next
  case True
  then have pos: "0 < x" using assms(1) by (simp add: scientificRange_def)
  have ne: "significand x \<noteq> []"
    using significand_props(1) [OF pos assms(2)] .
  then have "isDigit (hd (significand x))"
    using significand_props(2) [OF pos assms(2)] by (cases "significand x") auto
  with True ne show ?thesis
    by (simp add: unsignedText_def scientificText_hd)
qed

lemma unsignedText_nonempty:
  assumes "0 \<le> x" and "isDecimal x"
  shows "unsignedText x \<noteq> []"
proof (cases "scientificRange x")
  case False
  then show ?thesis
    by (simp add: unsignedText_def positionalText_def natDigits_nonempty)
next
  case True
  then have pos: "0 < x" using assms(1) by (simp add: scientificRange_def)
  have "significand x \<noteq> []"
    using significand_props(1) [OF pos assms(2)] .
  with True show ?thesis
    by (cases "significand x") (simp_all add: unsignedText_def scientificText_def)
qed

lemma scale10_uminus: "scale10 (- m) e = - scale10 m e"
  by (simp add: scale10_def)

lemma lexNumber_minus:
  assumes "cs \<noteq> []" and "hd cs \<noteq> CHR ''-''" and "lexNumber cs = Some (v, r)"
  shows "lexNumber (CHR ''-'' # cs) = Some (- v, r)"
  using assms
  by (auto simp: lexNumber_def Let_def scale10_uminus split: option.splits if_splits)

lemma lexNumber_numberText:
  assumes "isDecimal x" and "numberEnds rest"
  shows "lexNumber (numberText x @ rest) = Some (x, rest)"
proof (cases "x < 0")
  case False
  then show ?thesis
    using assms by (simp add: numberText_def lexNumber_unsignedText)
next
  case True
  define y where "y = - x"
  have y: "0 \<le> y" "isDecimal y" using True assms(1) by (simp_all add: y_def isDecimal_uminus)
  have u: "lexNumber (unsignedText y @ rest) = Some (y, rest)"
    using y assms(2) by (rule lexNumber_unsignedText)
  have nm: "hd (unsignedText y @ rest) \<noteq> CHR ''-''"
    using unsignedText_hd [OF y, of rest] by (auto dest: isDigit_not_minus)
  have ne: "unsignedText y @ rest \<noteq> []"
    using y by (simp add: unsignedText_nonempty)
  have "numberText x @ rest = CHR ''-'' # unsignedText y @ rest"
    using True by (simp add: numberText_def y_def)
  then show ?thesis
    using lexNumber_minus [OF ne nm u] by (simp add: y_def)
qed

lemma numberText_hd:
  assumes "isDecimal x" and "numberText x @ rest = c # cs"
  shows "c = CHR ''-'' \<or> isDigit c"
proof (cases "x < 0")
  case True
  with assms(2) show ?thesis by (simp add: numberText_def)
next
  case False
  then have "isDigit (hd (unsignedText x @ rest))"
    using assms(1) by (intro unsignedText_hd) simp_all
  with False assms(2) show ?thesis by (simp add: numberText_def)
qed

lemma numberText_nonempty: "isDecimal x \<Longrightarrow> numberText x \<noteq> []"
  by (simp add: numberText_def unsignedText_nonempty)

lemma appendToks_simps:
  "appendToks [] r = r"
  "appendToks (ts @ us) r = appendToks ts (appendToks us r)"
  "appendToks (t # ts) r = consTok t (appendToks ts r)"
  "appendToks ts (Some us) = Some (ts @ us)"
  by (simp_all add: appendToks_def consTok_def split: option.splits)

subsection \<open>Quoted strings\<close>

lemma hexVal_hexDigit: "k < 16 \<Longrightarrow> hexVal (hexDigit k) = Some k"
proof -
  assume "k < 16"
  then have "k \<in> {0, 1, 2, 3, 4, 5, 6, 7, 8, 9, 10, 11, 12, 13, 14, 15}"
    by (simp only: insert_iff empty_iff) arith
  then show ?thesis
    by (elim insertE emptyE) (simp_all add: hexDigit_def hexVal_def)
qed

lemma hex4_control:
  assumes "n < 256"
  shows "hex4 (CHR ''0'') (CHR ''0'') (hexDigit (n div 16)) (hexDigit (n mod 16)) = Some n"
proof -
  have "n div 16 < 16" using assms by simp
  then have "hexVal (hexDigit (n div 16)) = Some (n div 16)"
    by (rule hexVal_hexDigit)
  moreover have "hexVal (hexDigit (n mod 16)) = Some (n mod 16)"
    by (rule hexVal_hexDigit) simp
  moreover have "hexVal (CHR ''0'') = Some 0"
    by (simp add: hexVal_def)
  ultimately show ?thesis
    by (simp add: hex4_def)
qed

lemma lexString_quoteChar: "lexString (quoteChar c @ cs) = consChar c (lexString cs)"
proof -
  have ctl: "lexString ([CHR 0x5C, CHR ''u'', CHR ''0'', CHR ''0'',
                hexDigit (of_char c div 16), hexDigit (of_char c mod 16)] @ cs)
             = consChar c (lexString cs)"
    using hex4_control [of "of_char c"] by simp
  show ?thesis
    unfolding quoteChar_def
    using ctl by (simp add: unescape_def)
qed

lemma lexString_quoted:
  "lexString (concat (map quoteChar s) @ CHR 0x22 # rest) = Some (s, rest)"
  by (induction s) (simp_all add: lexString_quoteChar consChar_def del: lexString.simps,
      simp)

subsection \<open>The tokenizer reads back the text of a value\<close>

lemma numberEnds_punct:
  "numberEnds (CHR '','' # cs)" "numberEnds (CHR '']'' # cs)" "numberEnds (CHR ''}'' # cs)"
  "numberEnds []"
  by (simp_all add: numberEnds_def isDigit_def)

lemma tokenize_number_start:
  assumes "c = CHR ''-'' \<or> isDigit c"
  shows "tokenize (c # cs) = (case lexNumber (c # cs) of
                           None \<Rightarrow> None
                         | Some (x, rest) \<Rightarrow> consTok (Scalar (JNumber x)) (tokenize rest))"
proof -
  have "\<not> isWhitespace c" "c \<noteq> CHR ''[''" "c \<noteq> CHR '']''" "c \<noteq> CHR ''{''"
    "c \<noteq> CHR ''}''" "c \<noteq> CHR '':''" "c \<noteq> CHR '',''" "c \<noteq> CHR 0x22"
    using assms by (auto simp: isDigit_def isWhitespace_def)
  then show ?thesis
    using assms by (simp only: tokenize.simps if_False if_True)
qed

lemma tokenize_numberText:
  assumes "isDecimal x" and "numberEnds rest"
  shows "tokenize (numberText x @ rest) = consTok (Scalar (JNumber x)) (tokenize rest)"
proof -
  obtain c cs where c: "numberText x @ rest = c # cs"
    using numberText_nonempty [OF assms(1)] by (cases "numberText x @ rest") auto
  then have "c = CHR ''-'' \<or> isDigit c"
    using assms(1) by (intro numberText_hd)
  then have "tokenize (c # cs) = (case lexNumber (c # cs) of
                           None \<Rightarrow> None
                         | Some (x, rest) \<Rightarrow> consTok (Scalar (JNumber x)) (tokenize rest))"
    by (rule tokenize_number_start)
  then show ?thesis
    using lexNumber_numberText [OF assms] c by simp
qed

lemma tokenize_quoted:
  "tokenize (quoteJSONString s @ rest) = consTok (Scalar (JString s)) (tokenize rest)"
  by (simp add: quoteJSONString_def lexString_quoted isWhitespace_def)

lemma tokenize_elements:
  assumes "\<And>v rest. v \<in> set vs \<Longrightarrow> numberEnds rest \<Longrightarrow>
             tokenize (JSON_stringify v @ rest) = appendToks (tokens v) (tokenize rest)"
  shows "tokenize (concat (map (\<lambda>w. CHR '','' # JSON_stringify w) vs) @ CHR '']'' # rest)
         = appendToks (concat (map (\<lambda>w. Comma # tokens w) vs)) (consTok RBracket (tokenize rest))"
  using assms
proof (induction vs)
  case Nil
  then show ?case by (simp add: appendToks_simps isWhitespace_def)
next
  case (Cons v vs)
  define tail where
    "tail = concat (map (\<lambda>w. CHR '','' # JSON_stringify w) vs) @ CHR '']'' # rest"
  have ends: "numberEnds tail"
    by (cases vs) (simp_all add: tail_def numberEnds_punct)
  have "tokenize (concat (map (\<lambda>w. CHR '','' # JSON_stringify w) (v # vs)) @ CHR '']'' # rest)
        = consTok Comma (tokenize (JSON_stringify v @ tail))"
    by (simp add: tail_def isWhitespace_def)
  also have "\<dots> = consTok Comma (appendToks (tokens v) (tokenize tail))"
    using Cons.prems [of v tail] ends by simp
  also have "tokenize tail = appendToks (concat (map (\<lambda>w. Comma # tokens w) vs))
                          (consTok RBracket (tokenize rest))"
    unfolding tail_def using Cons.prems by (intro Cons.IH) simp
  finally show ?case
    by (simp add: appendToks_simps)
qed

lemma tokenize_array:
  assumes "\<And>v rest. v \<in> set vs \<Longrightarrow> numberEnds rest \<Longrightarrow>
             tokenize (JSON_stringify v @ rest) = appendToks (tokens v) (tokenize rest)"
  shows "tokenize (JSON_stringify (JArray vs) @ rest) = appendToks (tokens (JArray vs)) (tokenize rest)"
proof (cases vs)
  case Nil
  then show ?thesis
    by (simp add: appendToks_simps isWhitespace_def)
next
  case (Cons v ws)
  define tail where
    "tail = concat (map (\<lambda>w. CHR '','' # JSON_stringify w) ws) @ CHR '']'' # rest"
  have ends: "numberEnds tail"
    by (cases ws) (simp_all add: tail_def numberEnds_punct)
  have "tokenize (JSON_stringify (JArray vs) @ rest)
        = consTok LBracket (tokenize (JSON_stringify v @ tail))"
    using Cons by (simp add: tail_def joinWith_Cons comp_def isWhitespace_def)
  also have "\<dots> = consTok LBracket (appendToks (tokens v) (tokenize tail))"
    using assms [of v tail] ends Cons by simp
  also have "tokenize tail = appendToks (concat (map (\<lambda>w. Comma # tokens w) ws))
                          (consTok RBracket (tokenize rest))"
    unfolding tail_def using assms Cons by (intro tokenize_elements) simp
  finally show ?thesis
    using Cons by (simp add: appendToks_simps joinWith_Cons comp_def)
qed

lemma tokenize_members:
  assumes "\<And>k v rest. (k, v) \<in> set ms \<Longrightarrow> numberEnds rest \<Longrightarrow>
             tokenize (JSON_stringify v @ rest) = appendToks (tokens v) (tokenize rest)"
  shows "tokenize (concat (map (\<lambda>m. CHR '','' #
                 (case m of (k, v) \<Rightarrow> quoteJSONString k @ CHR '':'' # JSON_stringify v)) ms)
              @ CHR ''}'' # rest)
         = appendToks (concat (map (\<lambda>m. Comma #
                 (case m of (k, v) \<Rightarrow> Scalar (JString k) # Colon # tokens v)) ms))
             (consTok RBrace (tokenize rest))"
  using assms
proof (induction ms)
  case Nil
  then show ?case by (simp add: appendToks_simps isWhitespace_def)
next
  case (Cons m ms)
  obtain k v where m: "m = (k, v)" by (cases m)
  define tail where
    "tail = concat (map (\<lambda>m. CHR '','' #
                 (case m of (k, v) \<Rightarrow> quoteJSONString k @ CHR '':'' # JSON_stringify v)) ms)
              @ CHR ''}'' # rest"
  have ends: "numberEnds tail"
    by (cases ms) (simp_all add: tail_def numberEnds_punct)
  have "tokenize (concat (map (\<lambda>m. CHR '','' #
                 (case m of (k, v) \<Rightarrow> quoteJSONString k @ CHR '':'' # JSON_stringify v)) (m # ms))
              @ CHR ''}'' # rest)
        = consTok Comma (tokenize (quoteJSONString k @ CHR '':'' # JSON_stringify v @ tail))"
    by (simp add: tail_def m isWhitespace_def)
  also have "\<dots> = consTok Comma (consTok (Scalar (JString k))
                      (consTok Colon (tokenize (JSON_stringify v @ tail))))"
    by (simp add: tokenize_quoted isWhitespace_def)
  also have "tokenize (JSON_stringify v @ tail) = appendToks (tokens v) (tokenize tail)"
    using Cons.prems [of k v tail] ends m by simp
  also have "tokenize tail = appendToks (concat (map (\<lambda>m. Comma #
                 (case m of (k, v) \<Rightarrow> Scalar (JString k) # Colon # tokens v)) ms))
             (consTok RBrace (tokenize rest))"
    unfolding tail_def
  proof (rule Cons.IH)
    fix k' v' rest'
    assume "(k', v') \<in> set ms" "numberEnds rest'"
    then show "tokenize (JSON_stringify v' @ rest') = appendToks (tokens v') (tokenize rest')"
      using Cons.prems [of k' v' rest'] by simp
  qed
  finally show ?case
    by (simp add: appendToks_simps m)
qed

lemma tokenize_object:
  assumes "\<And>k v rest. (k, v) \<in> set ms \<Longrightarrow> numberEnds rest \<Longrightarrow>
             tokenize (JSON_stringify v @ rest) = appendToks (tokens v) (tokenize rest)"
  shows "tokenize (JSON_stringify (JObject ms) @ rest) = appendToks (tokens (JObject ms)) (tokenize rest)"
proof (cases ms)
  case Nil
  then show ?thesis
    by (simp add: appendToks_simps isWhitespace_def)
next
  case (Cons m ws)
  obtain k v where m: "m = (k, v)" by (cases m)
  define tail where
    "tail = concat (map (\<lambda>m. CHR '','' #
                 (case m of (k, v) \<Rightarrow> quoteJSONString k @ CHR '':'' # JSON_stringify v)) ws)
              @ CHR ''}'' # rest"
  have ends: "numberEnds tail"
    by (cases ws) (simp_all add: tail_def numberEnds_punct)
  have "tokenize (JSON_stringify (JObject ms) @ rest)
        = consTok LBrace (tokenize (quoteJSONString k @ CHR '':'' # JSON_stringify v @ tail))"
    using Cons m by (simp add: tail_def joinWith_Cons comp_def isWhitespace_def)
  also have "\<dots> = consTok LBrace (consTok (Scalar (JString k))
                      (consTok Colon (tokenize (JSON_stringify v @ tail))))"
    by (simp add: tokenize_quoted isWhitespace_def)
  also have "tokenize (JSON_stringify v @ tail) = appendToks (tokens v) (tokenize tail)"
    using assms [of k v tail] ends m Cons by simp
  also have "tokenize tail = appendToks (concat (map (\<lambda>m. Comma #
                 (case m of (k, v) \<Rightarrow> Scalar (JString k) # Colon # tokens v)) ws))
             (consTok RBrace (tokenize rest))"
    unfolding tail_def
  proof (rule tokenize_members)
    fix k' v' rest'
    assume "(k', v') \<in> set ws" "numberEnds rest'"
    then show "tokenize (JSON_stringify v' @ rest') = appendToks (tokens v') (tokenize rest')"
      using assms [of k' v' rest'] Cons by simp
  qed
  finally show ?thesis
    using Cons m by (simp add: appendToks_simps joinWith_Cons comp_def)
qed

lemma tokenize_stringify:
  "decimalJSON v \<Longrightarrow> numberEnds rest \<Longrightarrow>
     tokenize (JSON_stringify v @ rest) = appendToks (tokens v) (tokenize rest)"
proof (induction v arbitrary: rest)
  case JNull
  then show ?case by (simp add: appendToks_simps isWhitespace_def isDigit_def)
next
  case (JBool b)
  then show ?case by (simp add: appendToks_simps isWhitespace_def isDigit_def)
next
  case (JNumber x)
  then show ?case by (simp add: appendToks_simps tokenize_numberText)
next
  case (JString s)
  then show ?case by (simp add: appendToks_simps tokenize_quoted)
next
  case (JArray vs)
  show ?case
  proof (rule tokenize_array)
    fix v rest'
    assume "v \<in> set vs" "numberEnds rest'"
    then show "tokenize (JSON_stringify v @ rest') = appendToks (tokens v) (tokenize rest')"
      using JArray.IH [of v rest'] JArray.prems(1) by (simp add: list_all_iff)
  qed
next
  case (JObject ms)
  show ?case
  proof (rule tokenize_object)
    fix k v rest'
    assume "(k, v) \<in> set ms" "numberEnds rest'"
    then show "tokenize (JSON_stringify v @ rest') = appendToks (tokens v) (tokenize rest')"
      using JObject.IH [of "(k, v)" v rest'] JObject.prems(1)
      by (auto simp: list_all_iff)
  qed
qed

lemma parse_stringify: "decimalJSON v \<Longrightarrow> JSON_parse (JSON_stringify v) = Inr v"
proof -
  assume "decimalJSON v"
  then have "tokenize (JSON_stringify v @ []) = appendToks (tokens v) (tokenize [])"
    by (intro tokenize_stringify) (simp_all add: numberEnds_punct)
  then have "tokenize (JSON_stringify v) = Some (tokens v)"
    by (simp add: appendToks_simps)
  moreover have "run (AwaitValue []) (tokens v @ []) = run (deliver v []) []"
    by (rule run_tokens)
  ultimately show ?thesis
    by (simp add: JSON_parse_def)
qed

subsection \<open>Decimals\<close>

lemma dvd_power_self:
  fixes b :: nat
  shows "0 < b \<Longrightarrow> b dvd 10 ^ k \<Longrightarrow> b dvd 10 ^ b"
proof (induction b rule: less_induct)
  case (less b)
  show ?case
  proof (cases "coprime b 10")
    case True
    then have "coprime b (10 ^ k)" by simp
    with less.prems(2) have "b = 1"
      by (metis coprime_absorb_left is_unit_gcd nat_dvd_1_iff_1)
    then show ?thesis by simp
  next
    case False
    define g where "g = gcd b 10"
    have g1: "g \<noteq> 1" using False by (simp add: g_def coprime_iff_gcd_eq_1)
    have g0: "0 < g" using less.prems(1) by (simp add: g_def)
    have gb: "g dvd b" and g10: "g dvd 10" by (simp_all add: g_def)
    define c where "c = b div g"
    have b: "b = g * c" using gb by (simp add: c_def)
    have c0: "0 < c" using less.prems(1) b by (cases c) auto
    have "1 < g" using g0 g1 by linarith
    then have cb: "c < b" using c0 b by simp
    have "c dvd b" using b by simp
    then have "c dvd 10 ^ k" using less.prems(2) dvd_trans by blast
    then have "c dvd 10 ^ c" using less.IH [OF cb c0] by simp
    then have "g * c dvd 10 * 10 ^ c" using g10 by (rule mult_dvd_mono [rotated])
    then have "b dvd 10 ^ Suc c" using b by simp
    moreover have "(10::nat) ^ Suc c dvd 10 ^ b"
      using cb by (intro le_imp_power_dvd) simp
    ultimately show ?thesis using dvd_trans by blast
  qed
qed

lemma isDecimal_iff: "isDecimal x \<longleftrightarrow> (\<exists>k. x * 10 ^ k \<in> \<int>)"
proof
  assume "isDecimal x"
  then show "\<exists>k. x * 10 ^ k \<in> \<int>"
    using isDecimal_Ints by blast
next
  assume "\<exists>k. x * 10 ^ k \<in> \<int>"
  then obtain k z where z: "x * 10 ^ k = of_int z"
    by (auto elim: Ints_cases)
  obtain a b where q: "quotient_of x = (a, b)" by (cases "quotient_of x")
  then have b: "0 < b" and x: "x = of_int a / of_int b" and co: "coprime a b"
    by (simp_all add: quotient_of_denom_pos quotient_of_div quotient_of_coprime)
  have "of_int a * 10 ^ k = (of_int z :: rat) * of_int b"
    using z b by (simp add: x field_simps)
  then have "(of_int (a * 10 ^ k) :: rat) = of_int (z * b)"
    by simp
  then have "a * 10 ^ k = z * b"
    by (simp only: of_int_eq_iff)
  then have "b dvd a * 10 ^ k" by simp
  then have "b dvd 10 ^ k"
    using co by (simp add: coprime_commute coprime_dvd_mult_right_iff)
  then have "nat b dvd 10 ^ k"
    using b by (metis nat_dvd_iff nat_numeral nat_power_eq of_nat_numeral of_nat_power zero_le_numeral dvd_refl int_dvd_int_iff nat_0_le order_less_imp_le)
  then have "nat b dvd 10 ^ nat b"
    using b by (intro dvd_power_self) simp_all
  then have "b dvd 10 ^ nat b"
    using b by (metis int_dvd_int_iff nat_0_le of_nat_numeral of_nat_power order_less_imp_le)
  then show "isDecimal x"
    by (simp add: isDecimal_def denominator_def q)
qed

lemma isInteger_isDecimal: "isInteger x \<Longrightarrow> isDecimal x"
proof -
  assume "isInteger x"
  then have "x * 10 ^ 0 \<in> \<int>"
    by (metis isInteger_def Ints_of_int mult.right_neutral power_0)
  then show ?thesis
    using isDecimal_iff by blast
qed

subsection \<open>The serializer and the load effect at sample values\<close>

text \<open>
  The text that the test "should persist cart to localStorage" expects
  \<^verbatim>\<open>localStorage.setItem\<close> to receive, and the cart that the test "should load cart
  from localStorage on mount" expects to be restored.
\<close>

lemma stringify_test_cart:
  \<open>JSON_stringify (cartJSON [\<lparr>productId = 1, name = ''Test Product'', price = 50,
      quantity = 2, imageUrl = None, discount = None\<rparr>])
   = ''[{"productId":1,"name":"Test Product","price":50,"quantity":2}]''\<close>
  by code_simp

lemma restore_test_cart:
  \<open>restoredCart (storageWith
      ''[{"productId":1,"name":"Saved Product","price":30,"quantity":3}]'')
   = Some [\<lparr>productId = 1, name = ''Saved Product'', price = 30, quantity = 3,
            imageUrl = None, discount = None\<rparr>]\<close>
  by code_simp

text \<open>Number texts on both sides of the bound \<^verbatim>\<open>1e21\<close>, and two decimal fractions.\<close>

lemma digitChar_numerals:
  "digitChar 0 = CHR ''0''" "digitChar (Suc 0) = CHR ''1''" "digitChar 2 = CHR ''2''"
  "digitChar 9 = CHR ''9''"
  by code_simp+

lemma numberText_large:
  "numberText (10 ^ 21) = ''1e+21''"
  "numberText (10 ^ 21 - 1) = ''999999999999999999999''"
  by (simp_all add: numberText_def unsignedText_def scientificRange_def positionalText_def
      scientificText_def significand_def decimalExponent_def stripTrailingZeros_def
      denominator_def natDigits.simps digitChar_numerals frac_def)

lemma numberText_fractions:
  "numberText (9999 / 100) = ''99.99''"
  "numberText (- (1 / 4)) = ''-0.25''"
  by code_simp+

subsection \<open>Write, then initialize\<close>

lemma asCartItem_itemJSON: "asCartItem (itemJSON item) = Some item"
  by (cases "imageUrl item"; cases "discount item")
     (simp_all add: asCartItem_def itemJSON_def getField_def optionalString_def
        optionalNumber_def)

lemma asCartItems_cartJSON: "asCartItems (cartJSON items) = Some items"
  by (induction items) (simp_all add: asCartItems_def cartJSON_def asCartItem_itemJSON)

lemma decimalJSON_itemJSON: "validLineItem item \<Longrightarrow> decimalJSON (itemJSON item)"
  by (cases "imageUrl item"; cases "discount item")
     (simp_all add: validLineItem_def itemJSON_def isInteger_isDecimal)

lemma decimalJSON_cartJSON: "validSnapshot items \<Longrightarrow> decimalJSON (cartJSON items)"
  by (simp add: validSnapshot_def cartJSON_def list_all_iff decimalJSON_itemJSON)

text \<open>
  For a valid snapshot the whole mount (both effects, the render of the restored state
  and the second run of the save effect) ends without an error in the state and the
  storage that the load effect gives.
\<close>

lemma renderError_cartJSON: "renderError (cartJSON items) = None"
  by (auto simp: renderError_def cartJSON_def itemJSON_def)

lemma mount_valid_snapshot:
  "validSnapshot items \<Longrightarrow>
     mount (saveCart (cartJSON items) ls)
       = (\<lparr>itemsState = cartJSON items, storage = saveCart (cartJSON items) ls,
           consoleErrors = []\<rparr>, None)"
proof -
  assume v: "validSnapshot items"
  have p: "JSON_parse (JSON_stringify (cartJSON items)) = Inr (cartJSON items)"
    using v by (intro parse_stringify decimalJSON_cartJSON)
  have ne: "JSON_stringify (cartJSON items) \<noteq> []"
    by (simp add: cartJSON_def)
  have l: "loadCart (saveCart (cartJSON items) ls)
       = \<lparr>itemsState = cartJSON items, storage = saveCart (cartJSON items) ls,
          consoleErrors = []\<rparr>"
    using p ne by (simp add: loadCart_def saveCart_def)
  show ?thesis
    by (simp add: mount_def l renderError_cartJSON Let_def) (simp add: saveCart_def)
qed

text \<open>
  Claim C7. For every valid snapshot, writing it with the save effect and then running
  the load effect reproduces it: \<^verbatim>\<open>JSON.parse\<close> returns the very value that was
  serialized, the load effect makes it the state without a diagnostic and leaves the
  storage as written, and the state read as line items is the original ordered list,
  equal in every field.
\<close>

theorem C7_roundtrip:
  "validSnapshot items \<Longrightarrow>
     JSON_parse (JSON_stringify (cartJSON items)) = Inr (cartJSON items)
   \<and> loadCart (saveCart (cartJSON items) ls)
       = \<lparr>itemsState = cartJSON items, storage = saveCart (cartJSON items) ls,
          consoleErrors = []\<rparr>
   \<and> restoredCart (saveCart (cartJSON items) ls) = Some items"
proof -
  assume v: "validSnapshot items"
  have p: "JSON_parse (JSON_stringify (cartJSON items)) = Inr (cartJSON items)"
    using v by (intro parse_stringify decimalJSON_cartJSON)
  have ne: "JSON_stringify (cartJSON items) \<noteq> []"
    by (simp add: cartJSON_def)
  have l: "loadCart (saveCart (cartJSON items) ls)
       = \<lparr>itemsState = cartJSON items, storage = saveCart (cartJSON items) ls,
          consoleErrors = []\<rparr>"
    using p ne by (simp add: loadCart_def saveCart_def)
  then have "restoredCart (saveCart (cartJSON items) ls) = Some items"
    by (simp add: restoredCart_def asCartItems_cartJSON)
  with p l show ?thesis by blast
qed

text \<open>The hypothesis of C7 at \<open>cartA\<close>, written to the empty storage.\<close>

lemma validSnapshot_cartA: "validSnapshot cartA"
  by code_simp

theorem C7_roundtrip_witness:
  "validSnapshot cartA
   \<and> restoredCart (saveCart (cartJSON cartA) Map.empty) = Some cartA"
  using C7_roundtrip [OF validSnapshot_cartA, of Map.empty] validSnapshot_cartA by blast

end
